theory Spec2Isabelle
  imports Complex_Main "HOL-Library.Word" "HOL-Library.AList"
begin

section \<open>JavaScript values\<close>

text \<open>
  The option objects that travel over the socket are JSON data. An object is an
  association list from property names to values, in insertion order, which is the
  order \<open>Object.keys\<close> returns. A property read of a name the object does not
  own gives \<open>undefined\<close>. An array sent by a client is represented by the object
  of its index properties; the server never probes an array as a merge target.
  Numbers in options are stored and forwarded, never computed with; an integer
  stands for each.
\<close>

datatype jsval =
    JUndefined
  | JNull
  | JBool bool
  | JNum int
  | JStr string
  | JObj "(string \<times> jsval) list"

type_synonym obj = "(string \<times> jsval) list"

datatype js_error = TypeError

definition Object_keys :: "obj \<Rightarrow> string list" where
  "Object_keys ob = map fst ob"

definition getProp :: "obj \<Rightarrow> string \<Rightarrow> jsval" where
  "getProp ob k = (case map_of ob k of None \<Rightarrow> JUndefined | Some v \<Rightarrow> v)"

definition setProp :: "obj \<Rightarrow> string \<Rightarrow> jsval \<Rightarrow> obj" where
  "setProp ob k v = AList.update k v ob"

definition typeof :: "jsval \<Rightarrow> string" where
  "typeof v =
     (case v of
        JUndefined \<Rightarrow> ''undefined''
      | JNull \<Rightarrow> ''object''
      | JBool _ \<Rightarrow> ''boolean''
      | JNum _ \<Rightarrow> ''number''
      | JStr _ \<Rightarrow> ''string''
      | JObj _ \<Rightarrow> ''object'')"

text \<open>
  \<open>ob.hasOwnProperty(k)\<close> looks the method up on the object first: an object that
  owns a property called \<open>hasOwnProperty\<close> shadows the inherited method, and JSON
  data is never callable, so the call throws.
\<close>

definition hasOwnProperty :: "obj \<Rightarrow> string \<Rightarrow> js_error + bool" where
  "hasOwnProperty ob k =
     (if ''hasOwnProperty'' \<in> set (map fst ob) then Inl TypeError
      else Inr (k \<in> set (map fst ob)))"

text \<open>
  A string primitive owns \<open>length\<close> and its canonical index properties.
\<close>

definition isDigit :: "char \<Rightarrow> bool" where
  "isDigit c = (48 \<le> (of_char c :: nat) \<and> (of_char c :: nat) \<le> 57)"

definition decimalValue :: "string \<Rightarrow> nat" where
  "decimalValue ds = foldl (\<lambda>n c. 10 * n + ((of_char c :: nat) - 48)) 0 ds"

definition isArrayIndex :: "string \<Rightarrow> bool" where
  "isArrayIndex k =
     (k \<noteq> [] \<and> list_all isDigit k \<and> (k = ''0'' \<or> hd k \<noteq> CHR ''0''))"

definition stringHasOwnProperty :: "string \<Rightarrow> string \<Rightarrow> bool" where
  "stringHasOwnProperty s k =
     (k = ''length'' \<or> (isArrayIndex k \<and> decimalValue k < length s))"

section \<open>The speech adapter (server/cloud-speech-api-server.js)\<close>

subsection \<open>Option merge of startRecording\<close>

text \<open>
  The inner loop of \<open>startRecording\<close>: \<open>target\<close> is \<open>streamingOptions[key]\<close>,
  \<open>innerOptions\<close> is \<open>options[key]\<close>. The module is in strict mode, so an assignment
  to a property of a string primitive throws; a number or a boolean owns no property;
  \<open>null\<close> and \<open>undefined\<close> have no properties to read.
\<close>

fun mergeInner :: "jsval \<Rightarrow> obj \<Rightarrow> string list \<Rightarrow> js_error + jsval" where
  "mergeInner target innerOptions [] = Inr target"
| "mergeInner target innerOptions (ik # iks) =
     (case target of
        JUndefined \<Rightarrow> Inl TypeError
      | JNull \<Rightarrow> Inl TypeError
      | JBool _ \<Rightarrow> mergeInner target innerOptions iks
      | JNum _ \<Rightarrow> mergeInner target innerOptions iks
      | JStr s \<Rightarrow>
          (if stringHasOwnProperty s ik then Inl TypeError
           else mergeInner target innerOptions iks)
      | JObj d \<Rightarrow>
          (case hasOwnProperty d ik of
             Inl e \<Rightarrow> Inl e
           | Inr True \<Rightarrow>
               mergeInner (JObj (setProp d ik (getProp innerOptions ik))) innerOptions iks
           | Inr False \<Rightarrow> mergeInner target innerOptions iks))"

text \<open>
  The outer loop over \<open>Object.keys(options)\<close>. \<open>typeof null\<close> is \<open>object\<close> and
  \<open>Object.keys(null)\<close> throws. The second \<open>hasOwnProperty\<close> test, in the
  \<open>else\<close> branch, repeats the first one and is true there.
\<close>

fun mergeStreaming :: "obj \<Rightarrow> obj \<Rightarrow> string list \<Rightarrow> js_error + obj" where
  "mergeStreaming streamingOptions options [] = Inr streamingOptions"
| "mergeStreaming streamingOptions options (k # ks) =
     (case hasOwnProperty streamingOptions k of
        Inl e \<Rightarrow> Inl e
      | Inr False \<Rightarrow> mergeStreaming streamingOptions options ks
      | Inr True \<Rightarrow>
          (if typeof (getProp options k) = ''object'' then
             (case getProp options k of
                JObj innerOptions \<Rightarrow>
                  (case mergeInner (getProp streamingOptions k) innerOptions
                          (Object_keys innerOptions) of
                     Inl e \<Rightarrow> Inl e
                   | Inr t \<Rightarrow> mergeStreaming (setProp streamingOptions k t) options ks)
              | _ \<Rightarrow> Inl TypeError)
           else mergeStreaming (setProp streamingOptions k (getProp options k)) options ks))"

text \<open>
  The parameter \<open>options\<close> is declared \<open>?Object<string>\<close>: an object, or
  \<open>None\<close> for \<open>null\<close> and for a message that has no options, which
  \<open>if (options)\<close> skips.
\<close>

definition mergeOptions :: "obj \<Rightarrow> obj option \<Rightarrow> js_error + obj" where
  "mergeOptions streamingOptions options =
     (case options of
        None \<Rightarrow> Inr streamingOptions
      | Some opts \<Rightarrow> mergeStreaming streamingOptions opts (Object_keys opts))"

subsection \<open>Adapter state\<close>

text \<open>
  Error objects handed over by the auth library, the transport and the cloud service
  are opaque to this code; a string stands for each. A recognition result is the
  record the client reads: the finality flag and the transcripts of its alternatives.
\<close>

datatype error_object = ErrorObject string

datatype result = Result bool "string list"

type_synonym audioBuffer = "16 word list"

text \<open>
  The two shapes \<open>recognise\<close> passes to \<open>speechClient.write\<close>:
  \<open>{streamingConfig: ...}\<close> and \<open>{audioContent: ...}\<close>.
\<close>

datatype write_msg = StreamingConfig obj | AudioContent audioBuffer

text \<open>
  A streaming call returned by \<open>speechService.streamingRecognize()\<close>: the messages
  written to it and the number of \<open>end()\<close> calls it received. The calls created by
  one adapter live in a store; \<open>speechClient\<close> is an index into it, or \<open>None\<close>
  for \<open>null\<close>.
\<close>

record stream =
  writes :: "write_msg list"
  ends :: nat

record adapter =
  speechClient :: "nat option"
  initialRequest :: bool
  streamingOptions :: obj
  nonStreamingOptions :: obj
  streams :: "stream list"

definition defaultStreamingOptions :: obj where
  "defaultStreamingOptions =
     [(''config'', JObj
         [(''encoding'', JStr ''LINEAR16''),
          (''sampleRate'', JNum 41000),
          (''languageCode'', JStr ''en-US''),
          (''profanityFilter'', JBool True),
          (''speechContext'', JNull)]),
      (''interimResults'', JBool True),
      (''singleUtterance'', JBool False)]"

definition defaultNonStreamingOptions :: obj where
  "defaultNonStreamingOptions =
     [(''encoding'', JStr ''LINEAR16''),
      (''sampleRate'', JNum 16000),
      (''languageCode'', JStr ''en-US''),
      (''continuous'', JBool False),
      (''enableEndpointerEvents'', JBool False)]"

definition CloudSpeechApi :: adapter where
  "CloudSpeechApi =
     \<lparr>speechClient = None, initialRequest = True,
      streamingOptions = defaultStreamingOptions,
      nonStreamingOptions = defaultNonStreamingOptions,
      streams = []\<rparr>"

subsection \<open>getSpeechService\<close>

text \<open>
  \<open>getAuthClient\<close> calls back with \<open>(err, authClient)\<close>. \<open>getSpeechService\<close>
  has a one-argument callback: it passes \<open>err\<close> in the place of the service when
  there is one, and the new service stub otherwise.
\<close>

datatype auth_result = AuthFailed error_object | AuthClient

datatype service_arg = ErrorArg error_object | SpeechService

definition getSpeechService :: "auth_result \<Rightarrow> service_arg" where
  "getSpeechService r =
     (case r of AuthFailed err \<Rightarrow> ErrorArg err | AuthClient \<Rightarrow> SpeechService)"

subsection \<open>recogniseFile\<close>

fun mergeNonStreaming :: "obj \<Rightarrow> obj \<Rightarrow> string list \<Rightarrow> js_error + obj" where
  "mergeNonStreaming req parameters [] = Inr req"
| "mergeNonStreaming req parameters (k # ks) =
     (case hasOwnProperty parameters k of
        Inl e \<Rightarrow> Inl e
      | Inr True \<Rightarrow> mergeNonStreaming (setProp req k (getProp parameters k)) parameters ks
      | Inr False \<Rightarrow> mergeNonStreaming req parameters ks)"

text \<open>
  The request handed to \<open>nonStreamingRecognize\<close>: the configuration and the base64
  audio. The protocol-buffer constructors are taken to copy their argument.
\<close>

record request =
  initialRecognizeRequest :: obj
  audioRequest :: string

text \<open>
  The synchronous part of \<open>recogniseFile\<close>. The local \<open>initialRequest\<close> is the
  object \<open>nonStreamingOptions\<close> itself, so the loop writes into the adapter's record.
\<close>

definition recogniseFile :: "adapter \<Rightarrow> string \<Rightarrow> obj option \<Rightarrow> js_error + adapter \<times> request" where
  "recogniseFile a audioData parameters =
     (case (case parameters of
              None \<Rightarrow> Inr (nonStreamingOptions a)
            | Some ps \<Rightarrow>
                mergeNonStreaming (nonStreamingOptions a) ps
                  (Object_keys (nonStreamingOptions a))) of
        Inl e \<Rightarrow> Inl e
      | Inr req \<Rightarrow>
          Inr (a\<lparr>nonStreamingOptions := req\<rparr>,
               \<lparr>initialRecognizeRequest = req, audioRequest = audioData\<rparr>))"

text \<open>
  The callback \<open>recogniseFile\<close> gives to \<open>getSpeechService\<close> calls
  \<open>speechService.nonStreamingRecognize\<close>; an error object has no such method.
\<close>

definition recogniseFile_service :: "service_arg \<Rightarrow> js_error + unit" where
  "recogniseFile_service speechService =
     (case speechService of ErrorArg _ \<Rightarrow> Inl TypeError | SpeechService \<Rightarrow> Inr ())"

text \<open>
  The callback of \<open>nonStreamingRecognize\<close> receives \<open>(error, response)\<close>;
  \<open>response.responses\<close> is the list of result lists.
\<close>

datatype rpc_result = RpcFailed error_object | RpcResponse "result list list"

record file_response =
  success :: bool
  fr_data :: "result list option"
  fr_error :: "error_object option"

definition recogniseFile_response :: "rpc_result \<Rightarrow> js_error + file_response" where
  "recogniseFile_response r =
     (case r of
        RpcFailed err \<Rightarrow> Inr \<lparr>success = False, fr_data = None, fr_error = Some err\<rparr>
      | RpcResponse [] \<Rightarrow> Inl TypeError
      | RpcResponse (rs # _) \<Rightarrow> Inr \<lparr>success = True, fr_data = Some rs, fr_error = None\<rparr>)"

subsection \<open>startRecording\<close>

text \<open>
  The object \<open>startRecording\<close> passes to its callback:
  \<open>{type, recording, data, error}\<close>.
\<close>

record status =
  st_type :: string
  st_recording :: bool
  st_data :: "result list option"
  st_error :: "error_object option"

text \<open>
  The body of \<open>startRecording\<close> runs inside the \<open>getSpeechService\<close> callback:
  the merge comes first, then \<open>speechService.streamingRecognize()\<close>, which an error
  object does not have. On success the callback is invoked with the ready status.
\<close>

definition startRecording :: "adapter \<Rightarrow> obj option \<Rightarrow> service_arg \<Rightarrow> js_error + adapter \<times> status" where
  "startRecording a options speechService =
     (case mergeOptions (streamingOptions a) options of
        Inl e \<Rightarrow> Inl e
      | Inr merged \<Rightarrow>
          (case speechService of
             ErrorArg _ \<Rightarrow> Inl TypeError
           | SpeechService \<Rightarrow>
               Inr (a\<lparr>streamingOptions := merged,
                       speechClient := Some (length (streams a)),
                       streams := streams a @ [\<lparr>writes = [], ends = 0\<rparr>],
                       initialRequest := True\<rparr>,
                    \<lparr>st_type = ''status'', st_recording = True, st_data = None,
                     st_error = None\<rparr>)))"

text \<open>The three handlers registered on the streaming call.\<close>

record response =
  r_error :: "error_object option"
  r_results :: "result list option"

definition onStreamError :: "error_object \<Rightarrow> status" where
  "onStreamError err =
     \<lparr>st_type = ''error'', st_recording = False, st_data = None, st_error = Some err\<rparr>"

definition onStreamData :: "response \<Rightarrow> status option" where
  "onStreamData resp =
     (case r_error resp of
        Some err \<Rightarrow>
          Some \<lparr>st_type = ''error'', st_recording = False, st_data = None,
                st_error = Some err\<rparr>
      | None \<Rightarrow>
          (case r_results resp of
             None \<Rightarrow> None
           | Some [] \<Rightarrow> None
           | Some (x # xs) \<Rightarrow>
               Some \<lparr>st_type = ''data'', st_recording = True, st_data = Some (x # xs),
                     st_error = None\<rparr>))"

definition onStreamEnd :: status where
  "onStreamEnd =
     \<lparr>st_type = ''status'', st_recording = False, st_data = None, st_error = None\<rparr>"

subsection \<open>recognise and stopRecording\<close>

definition updateStream :: "nat \<Rightarrow> (stream \<Rightarrow> stream) \<Rightarrow> stream list \<Rightarrow> stream list" where
  "updateStream i f ss = (if i < length ss then ss[i := f (ss ! i)] else ss)"

text \<open>\<open>speechClient.write(msg)\<close>: a method call on \<open>null\<close> throws.\<close>

definition speechClient_write :: "adapter \<Rightarrow> write_msg \<Rightarrow> js_error + adapter" where
  "speechClient_write a msg =
     (case speechClient a of
        None \<Rightarrow> Inl TypeError
      | Some i \<Rightarrow>
          Inr (a\<lparr>streams := updateStream i (\<lambda>s. s\<lparr>writes := writes s @ [msg]\<rparr>) (streams a)\<rparr>))"

definition recognise :: "adapter \<Rightarrow> audioBuffer \<Rightarrow> js_error + adapter" where
  "recognise a audioData =
     (case (if initialRequest a then
              (case speechClient_write a (StreamingConfig (streamingOptions a)) of
                 Inl e \<Rightarrow> Inl e
               | Inr a' \<Rightarrow> Inr (a'\<lparr>initialRequest := False\<rparr>))
            else Inr a) of
        Inl e \<Rightarrow> Inl e
      | Inr a' \<Rightarrow> speechClient_write a' (AudioContent audioData))"

definition stopRecording :: "adapter \<Rightarrow> adapter" where
  "stopRecording a =
     (case speechClient a of
        None \<Rightarrow> a
      | Some i \<Rightarrow>
          a\<lparr>streams := updateStream i (\<lambda>s. s\<lparr>ends := ends s + 1\<rparr>) (streams a)\<rparr>)
     \<lparr>speechClient := None\<rparr>"

section \<open>The relay server (server/app.js)\<close>

text \<open>
  The payload of a \<open>socket.emit\<close>: the fields \<open>recording\<close>, \<open>data\<close> and
  \<open>error\<close>; \<open>None\<close> is a field that is absent, \<open>null\<close> or \<open>undefined\<close>.
\<close>

record message =
  m_recording :: "bool option"
  m_data :: "result list option"
  m_error :: "error_object option"

datatype emission = Emit string message

text \<open>The payload of the client's \<open>recording\<close> event: \<open>{action, options}\<close>.\<close>

record parameters =
  action :: string
  options :: "obj option"

text \<open>
  A \<open>getAuthClient\<close> call whose callback has not fired yet, with what its
  continuation closes over.
\<close>

datatype pending = PendingStart "obj option" | PendingFile request

text \<open>
  The state of one connection: the adapter created for it, the \<open>recording\<close>
  variable, what was emitted on the socket, and the callbacks in flight.
\<close>

record conn =
  cloudSpeechApi :: adapter
  recording :: bool
  emitted :: "emission list"
  pendingAuth :: "pending list"
  pendingRpc :: nat

definition connection :: conn where
  "connection =
     \<lparr>cloudSpeechApi = CloudSpeechApi, recording = False, emitted = [],
      pendingAuth = [], pendingRpc = 0\<rparr>"

definition socket_emit :: "conn \<Rightarrow> string \<Rightarrow> message \<Rightarrow> conn" where
  "socket_emit c name payload = c\<lparr>emitted := emitted c @ [Emit name payload]\<rparr>"

text \<open>The callback the \<open>recording\<close> handler gives to \<open>startRecording\<close>.\<close>

definition statusCallback :: "conn \<Rightarrow> status \<Rightarrow> conn" where
  "statusCallback c st =
     (let c' = c\<lparr>recording := st_recording st\<rparr> in
      if st_type st = ''data'' then
        socket_emit c' ''recordingData''
          \<lparr>m_recording = Some (st_recording st), m_data = st_data st,
           m_error = st_error st\<rparr>
      else if st_type st = ''status'' then
        socket_emit c' ''recordingStatusChange''
          \<lparr>m_recording = Some (st_recording st), m_data = None, m_error = st_error st\<rparr>
      else if st_type st = ''error'' then
        socket_emit c' ''recordingError''
          \<lparr>m_recording = Some (st_recording st), m_data = None, m_error = st_error st\<rparr>
      else c')"

text \<open>The callback the \<open>recogniseFile\<close> handler gives to the adapter.\<close>

definition fileCallback :: "conn \<Rightarrow> file_response \<Rightarrow> conn" where
  "fileCallback c resp =
     (if success resp then
        socket_emit c ''recordingData''
          \<lparr>m_recording = None, m_data = fr_data resp, m_error = fr_error resp\<rparr>
      else
        socket_emit c ''recordingError''
          \<lparr>m_recording = None, m_data = None, m_error = fr_error resp\<rparr>)"

text \<open>
  What can happen to a connection: the four socket events of the client, and the
  callbacks of the auth library, of the one-shot call and of a streaming call (named
  by its index in the store).
\<close>

datatype event =
    Recording parameters
  | RecogniseFile string "obj option"
  | Disconnect
  | Data audioBuffer
  | AuthCallback nat auth_result
  | RpcCallback rpc_result
  | StreamError nat error_object
  | StreamData nat response
  | StreamEnd nat

definition removeAt :: "nat \<Rightarrow> 'a list \<Rightarrow> 'a list" where
  "removeAt i xs = take i xs @ drop (Suc i) xs"

definition onRecording :: "conn \<Rightarrow> parameters \<Rightarrow> conn" where
  "onRecording c ps =
     (if action ps = ''start'' then
        c\<lparr>pendingAuth := pendingAuth c @ [PendingStart (options ps)]\<rparr>
      else if action ps = ''stop'' then
        socket_emit
          (c\<lparr>cloudSpeechApi := stopRecording (cloudSpeechApi c), recording := False\<rparr>)
          ''recordingStatus''
          \<lparr>m_recording = Some False, m_data = None, m_error = None\<rparr>
      else c)"

definition onDisconnect :: "conn \<Rightarrow> conn" where
  "onDisconnect c =
     c\<lparr>cloudSpeechApi := stopRecording (cloudSpeechApi c), recording := False\<rparr>"

definition onData :: "conn \<Rightarrow> audioBuffer \<Rightarrow> js_error + conn" where
  "onData c audioData =
     (if recording c then
        (case recognise (cloudSpeechApi c) audioData of
           Inl e \<Rightarrow> Inl e
         | Inr a \<Rightarrow> Inr (c\<lparr>cloudSpeechApi := a\<rparr>))
      else Inr c)"

definition onRecogniseFile :: "conn \<Rightarrow> string \<Rightarrow> obj option \<Rightarrow> js_error + conn" where
  "onRecogniseFile c audioData ps =
     (case recogniseFile (cloudSpeechApi c) audioData ps of
        Inl e \<Rightarrow> Inl e
      | Inr (a, req) \<Rightarrow>
          Inr (c\<lparr>cloudSpeechApi := a, pendingAuth := pendingAuth c @ [PendingFile req]\<rparr>))"

definition onAuthCallback :: "conn \<Rightarrow> nat \<Rightarrow> auth_result \<Rightarrow> js_error + conn" where
  "onAuthCallback c i r =
     (if i < length (pendingAuth c) then
        (let c' = c\<lparr>pendingAuth := removeAt i (pendingAuth c)\<rparr> in
         case pendingAuth c ! i of
           PendingStart opts \<Rightarrow>
             (case startRecording (cloudSpeechApi c') opts (getSpeechService r) of
                Inl e \<Rightarrow> Inl e
              | Inr (a, st) \<Rightarrow> Inr (statusCallback (c'\<lparr>cloudSpeechApi := a\<rparr>) st))
         | PendingFile req \<Rightarrow>
             (case recogniseFile_service (getSpeechService r) of
                Inl e \<Rightarrow> Inl e
              | Inr _ \<Rightarrow> Inr (c'\<lparr>pendingRpc := pendingRpc c' + 1\<rparr>)))
      else Inr c)"

definition onRpcCallback :: "conn \<Rightarrow> rpc_result \<Rightarrow> js_error + conn" where
  "onRpcCallback c r =
     (if 0 < pendingRpc c then
        (case recogniseFile_response r of
           Inl e \<Rightarrow> Inl e
         | Inr resp \<Rightarrow> Inr (fileCallback (c\<lparr>pendingRpc := pendingRpc c - 1\<rparr>) resp))
      else Inr c)"

definition streamExists :: "conn \<Rightarrow> nat \<Rightarrow> bool" where
  "streamExists c i = (i < length (streams (cloudSpeechApi c)))"

text \<open>
  One handler runs to completion. An exception no handler catches ends the server
  process: \<open>Inl\<close> is final.
\<close>

fun step :: "conn \<Rightarrow> event \<Rightarrow> js_error + conn" where
  "step c (Recording ps) = Inr (onRecording c ps)"
| "step c (RecogniseFile audioData ps) = onRecogniseFile c audioData ps"
| "step c Disconnect = Inr (onDisconnect c)"
| "step c (Data audioData) = onData c audioData"
| "step c (AuthCallback i r) = onAuthCallback c i r"
| "step c (RpcCallback r) = onRpcCallback c r"
| "step c (StreamError i err) =
     Inr (if streamExists c i then statusCallback c (onStreamError err) else c)"
| "step c (StreamData i resp) =
     Inr (if streamExists c i then
            (case onStreamData resp of None \<Rightarrow> c | Some st \<Rightarrow> statusCallback c st)
          else c)"
| "step c (StreamEnd i) =
     Inr (if streamExists c i then statusCallback c onStreamEnd else c)"

fun run :: "conn \<Rightarrow> event list \<Rightarrow> js_error + conn" where
  "run c [] = Inr c"
| "run c (e # es) = (case step c e of Inl err \<Rightarrow> Inl err | Inr c' \<Rightarrow> run c' es)"

section \<open>The client (client/cloud-speech-api-client.js)\<close>

subsection \<open>convertFloat32ToInt16\<close>

text \<open>
  A JavaScript Number. An element of a \<open>Float32Array\<close> reads as the Number of the
  same value. A finite 32-bit float has a 24-bit significand and \<open>0x7FFF\<close> has 15
  bits, so their product fits the 53-bit significand of a double: the multiplication
  of the source is exact on every finite sample, and a rational carries it.
\<close>

datatype number = Num rat | NaN | PosInfinity | NegInfinity

fun Math_min :: "number \<Rightarrow> number \<Rightarrow> number" where
  "Math_min NaN _ = NaN"
| "Math_min _ NaN = NaN"
| "Math_min NegInfinity _ = NegInfinity"
| "Math_min _ NegInfinity = NegInfinity"
| "Math_min PosInfinity y = y"
| "Math_min x PosInfinity = x"
| "Math_min (Num a) (Num b) = Num (min a b)"

fun infinityTimes :: "bool \<Rightarrow> rat \<Rightarrow> number" where
  "infinityTimes positive b =
     (if b = 0 then NaN
      else if (0 < b) = positive then PosInfinity else NegInfinity)"

fun multiply :: "number \<Rightarrow> number \<Rightarrow> number" where
  "multiply NaN _ = NaN"
| "multiply _ NaN = NaN"
| "multiply (Num a) (Num b) = Num (a * b)"
| "multiply PosInfinity (Num b) = infinityTimes True b"
| "multiply NegInfinity (Num b) = infinityTimes False b"
| "multiply (Num a) PosInfinity = infinityTimes True a"
| "multiply (Num a) NegInfinity = infinityTimes False a"
| "multiply PosInfinity PosInfinity = PosInfinity"
| "multiply NegInfinity NegInfinity = PosInfinity"
| "multiply PosInfinity NegInfinity = NegInfinity"
| "multiply NegInfinity PosInfinity = NegInfinity"

definition trunc :: "rat \<Rightarrow> int" where
  "trunc q = (if 0 \<le> q then \<lfloor>q\<rfloor> else \<lceil>q\<rceil>)"

text \<open>
  A store into an \<open>Int16Array\<close> applies \<open>ToInt16\<close>: \<open>NaN\<close> and the infinities
  become 0, a finite number loses its fraction and is taken modulo \<open>2^16\<close>.
\<close>

definition ToInt16 :: "number \<Rightarrow> 16 word" where
  "ToInt16 x = (case x of Num q \<Rightarrow> word_of_int (trunc q) | _ \<Rightarrow> 0)"

definition convertSample :: "number \<Rightarrow> 16 word" where
  "convertSample x = ToInt16 (multiply (Math_min (Num 1) x) (Num 32767))"

text \<open>\<open>while (l--)\<close> runs the body with \<open>l - 1\<close>, down to index 0.\<close>

fun convertLoop :: "nat \<Rightarrow> number list \<Rightarrow> 16 word list \<Rightarrow> 16 word list" where
  "convertLoop 0 buffer buf = buf"
| "convertLoop (Suc l) buffer buf =
     convertLoop l buffer (buf[l := convertSample (buffer ! l)])"

definition convertFloat32ToInt16 :: "number list \<Rightarrow> 16 word list" where
  "convertFloat32ToInt16 buffer =
     (let l = length buffer; buf = replicate l 0 in convertLoop l buffer buf)"

subsection \<open>processFileField\<close>

fun indexOfFrom :: "string \<Rightarrow> string \<Rightarrow> nat \<Rightarrow> int" where
  "indexOfFrom pat [] i = (if pat = [] then int i else - 1)"
| "indexOfFrom pat (c # cs) i =
     (if take (length pat) (c # cs) = pat then int i else indexOfFrom pat cs (Suc i))"

definition indexOf :: "string \<Rightarrow> string \<Rightarrow> int" where
  "indexOf s pat = indexOfFrom pat s 0"

text \<open>
  \<open>s.substring(i, j)\<close> clamps both indices to the string and swaps them when the
  first is the larger.
\<close>

definition substring :: "string \<Rightarrow> int \<Rightarrow> int \<Rightarrow> string" where
  "substring s i j =
     (let len = int (length s);
          a = min (max i 0) len;
          b = min (max j 0) len
      in take (nat (max a b - min a b)) (drop (nat (min a b)) s))"

definition substringFrom :: "string \<Rightarrow> int \<Rightarrow> string" where
  "substringFrom s i = substring s i (int (length s))"

text \<open>
  Lower case of the Latin capitals \<open>A\<close> (65) to \<open>Z\<close> (90): the code point plus
  32, which sets the bit of weight 32, clear in all of them. No character outside
  them lowers to one of the letters of \<open>flac\<close>, the only string the result is
  compared with.
\<close>

definition toLowerChar :: "char \<Rightarrow> char" where
  "toLowerChar c =
     (if 65 \<le> (of_char c :: nat) \<and> (of_char c :: nat) \<le> 90
      then (case c of Char b0 b1 b2 b3 b4 b5 b6 b7 \<Rightarrow> Char b0 b1 b2 b3 b4 True b6 b7)
      else c)"

definition toLowerCase :: "string \<Rightarrow> string" where
  "toLowerCase s = map toLowerChar s"

definition fileType :: "string \<Rightarrow> string" where
  "fileType result = substring result (indexOf result ''audio/'' + 6) (indexOf result '';'')"

text \<open>
  The \<open>onload\<close> handler, from \<open>reader.result\<close> to the two arguments emitted with
  \<open>recogniseFile\<close>.
\<close>

definition processFileField :: "string \<Rightarrow> string \<times> obj" where
  "processFileField result =
     (let parameters =
            [(''language'', JStr ''en-US''),
             (''encoding'', JStr ''LINEAR16''),
             (''sampleRate'', JNum 16000)];
          parameters' =
            (if toLowerCase (fileType result) = ''flac''
             then setProp parameters ''encoding'' (JStr ''FLAC'')
             else parameters)
      in (substringFrom result (indexOf result '','' + 1), parameters'))"

subsection \<open>Socket listeners\<close>

text \<open>
  The client registers three listeners. \<open>notified\<close> lists the callbacks invoked
  (taken as registered), with the payload each received.
\<close>

record client =
  isRecording :: bool
  audioContextOpen :: bool
  notified :: "(string \<times> message) list"

fun socket_on :: "client \<Rightarrow> emission \<Rightarrow> client" where
  "socket_on cl (Emit name payload) =
     (if name = ''recordingStatusChange'' then
        (if m_recording payload = Some True then cl\<lparr>isRecording := True\<rparr>
         else cl\<lparr>isRecording := False, audioContextOpen := False\<rparr>)
        \<lparr>notified := notified cl @ [(''onStatusChange'', payload)]\<rparr>
      else if name = ''recordingData'' then
        cl\<lparr>notified := notified cl @ [(''onData'', payload)]\<rparr>
      else if name = ''recordingError'' then
        cl\<lparr>notified := notified cl @ [(''onError'', payload)]\<rparr>
      else cl)"

section \<open>What the merges are meant to compute\<close>

text \<open>
  The allow-list merge in the words of the specification, as a relation between a
  default value, the value the client supplied for the same key, and the value after
  the merge. A client value that is not an object replaces the default. A client
  object is merged one level deep into a default sub-record: the sub-record keeps
  its keys, and a key takes the client's value when the client object has it. A
  client object leaves every other default as it is.
\<close>

definition innerMerged :: "obj \<Rightarrow> obj \<Rightarrow> obj \<Rightarrow> bool" where
  "innerMerged d inner d' =
     (Object_keys d' = Object_keys d \<and>
      list_all
        (\<lambda>ik. getProp d' ik =
               (if ik \<in> set (Object_keys inner) then getProp inner ik else getProp d ik))
        (Object_keys d))"

definition mergedValue :: "jsval \<Rightarrow> jsval \<Rightarrow> jsval \<Rightarrow> bool" where
  "mergedValue dv ov v =
     (case ov of
        JObj inner \<Rightarrow>
          (case dv of
             JObj d \<Rightarrow> (case v of JObj d' \<Rightarrow> innerMerged d inner d' | _ \<Rightarrow> False)
           | _ \<Rightarrow> v = dv)
      | JNull \<Rightarrow> False
      | _ \<Rightarrow> v = ov)"

definition allowListMerged :: "obj \<Rightarrow> obj \<Rightarrow> obj \<Rightarrow> bool" where
  "allowListMerged defaults override merged =
     (Object_keys merged = Object_keys defaults \<and>
      list_all
        (\<lambda>k. if k \<in> set (Object_keys override)
             then mergedValue (getProp defaults k) (getProp override k) (getProp merged k)
             else getProp merged k = getProp defaults k)
        (Object_keys defaults))"

text \<open>The part of a client object that names keys of the defaults.\<close>

definition recognized :: "obj \<Rightarrow> obj \<Rightarrow> obj" where
  "recognized defaults override =
     filter (\<lambda>kv. fst kv \<in> set (Object_keys defaults)) override"

section \<open>The shape of a streaming session\<close>

text \<open>
  What was written to a streaming call is in order when it is empty, or starts with
  one configuration message that only audio chunks follow.
\<close>

definition isAudioContent :: "write_msg \<Rightarrow> bool" where
  "isAudioContent m = (case m of AudioContent _ \<Rightarrow> True | StreamingConfig _ \<Rightarrow> False)"

definition configFirst :: "write_msg list \<Rightarrow> bool" where
  "configFirst ws =
     (case ws of
        [] \<Rightarrow> True
      | StreamingConfig _ # rest \<Rightarrow> list_all isAudioContent rest
      | AudioContent _ # _ \<Rightarrow> False)"

text \<open>
  The invariant of an adapter: every call in the store is in order and was ended at
  most once; the call \<open>speechClient\<close> refers to is in the store and not ended,
  \<open>initialRequest\<close> tells whether nothing was written to it yet, and its
  configuration message, once written, is the current \<open>streamingOptions\<close>.
\<close>

definition sessionInvariant :: "adapter \<Rightarrow> bool" where
  "sessionInvariant a =
     (list_all (\<lambda>s. configFirst (writes s) \<and> ends s \<le> 1) (streams a) \<and>
      (case speechClient a of
         None \<Rightarrow> True
       | Some i \<Rightarrow>
           i < length (streams a) \<and> ends (streams a ! i) = 0 \<and>
           (case writes (streams a ! i) of
              [] \<Rightarrow> initialRequest a
            | m # _ \<Rightarrow> \<not> initialRequest a \<and> m = StreamingConfig (streamingOptions a))))"

section \<open>Requests that leave an option alone\<close>

text \<open>
  An options object omits a key when it is absent or does not have the key. It omits
  the key \<open>ik\<close> of the sub-record \<open>k\<close> when it does not have \<open>k\<close>, or gives
  for \<open>k\<close> an object that does not have \<open>ik\<close>.
\<close>

definition omitsKey :: "string \<Rightarrow> obj option \<Rightarrow> bool" where
  "omitsKey k opts =
     (case opts of None \<Rightarrow> True | Some os \<Rightarrow> k \<notin> set (Object_keys os))"

definition omitsInnerKey :: "string \<Rightarrow> string \<Rightarrow> obj option \<Rightarrow> bool" where
  "omitsInnerKey k ik opts =
     (case opts of
        None \<Rightarrow> True
      | Some os \<Rightarrow>
          k \<notin> set (Object_keys os) \<or>
          (case getProp os k of
             JObj inner \<Rightarrow> ik \<notin> set (Object_keys inner)
           | _ \<Rightarrow> False))"

text \<open>
  The same for what happens to a connection: a file submission whose parameters omit
  the key, a start message whose options omit it (any other event asks for nothing),
  and a start that waits for its auth callback.
\<close>

definition fileRequestOmits :: "string \<Rightarrow> event \<Rightarrow> bool" where
  "fileRequestOmits k e = (case e of RecogniseFile _ ps \<Rightarrow> omitsKey k ps | _ \<Rightarrow> True)"

definition startRequestOmits :: "(obj option \<Rightarrow> bool) \<Rightarrow> event \<Rightarrow> bool" where
  "startRequestOmits omits e =
     (case e of
        Recording ps \<Rightarrow> action ps \<noteq> ''start'' \<or> omits (options ps)
      | _ \<Rightarrow> True)"

definition pendingOmits :: "(obj option \<Rightarrow> bool) \<Rightarrow> pending \<Rightarrow> bool" where
  "pendingOmits omits p =
     (case p of PendingStart opts \<Rightarrow> omits opts | PendingFile _ \<Rightarrow> True)"

section \<open>What a successful startRecording leaves\<close>

lemma startRecording_result:
  assumes "startRecording a opts sv = Inr (a', st)"
  shows "speechClient a' = Some (length (streams a)) \<and> initialRequest a' \<and>
         streams a' = streams a @ [\<lparr>writes = [], ends = 0\<rparr>] \<and>
         nonStreamingOptions a' = nonStreamingOptions a \<and>
         st = \<lparr>st_type = ''status'', st_recording = True, st_data = None, st_error = None\<rparr>"
  using assms by (auto simp: startRecording_def split: sum.splits service_arg.splits)

section \<open>Properties of the sample conversion\<close>

lemma sint_word_of_int_16:
  assumes "- 32768 \<le> k" "k < 32768"
  shows "sint (word_of_int k :: 16 word) = k"
proof -
  have "signed_take_bit 15 k = k"
    using assms by (intro signed_take_bit_int_eq_self) simp_all
  then show ?thesis by (simp add: signed_of_int)
qed

lemma trunc_scaled_bounds:
  assumes "- 1 \<le> x" "x \<le> 1"
  shows "- 32767 \<le> trunc (x * 32767)" "trunc (x * 32767) \<le> 32767"
proof -
  have lo: "- 32767 \<le> x * 32767" and hi: "x * 32767 \<le> 32767"
    using assms by simp_all
  show "- 32767 \<le> trunc (x * 32767)"
  proof (cases "0 \<le> x * 32767")
    case True
    then have "0 \<le> \<lfloor>x * 32767\<rfloor>" by simp
    with True show ?thesis by (simp add: trunc_def)
  next
    case False
    have "(- 32767 :: int) \<le> \<lceil>x * 32767\<rceil>"
      using lo by (simp add: le_ceiling_iff)
    with False show ?thesis by (simp add: trunc_def)
  qed
  show "trunc (x * 32767) \<le> 32767"
  proof (cases "0 \<le> x * 32767")
    case True
    have "\<lfloor>x * 32767\<rfloor> \<le> (32767 :: int)"
      using hi by (simp add: floor_le_iff)
    with True show ?thesis by (simp add: trunc_def)
  next
    case False
    then have "\<lceil>x * 32767\<rceil> \<le> 0" by (simp add: ceiling_le_iff)
    with False show ?thesis by (simp add: trunc_def)
  qed
qed

lemma floor_numeral_div_rat:
  "\<lfloor>(numeral a / numeral b) :: rat\<rfloor> = numeral a div numeral b"
  by (metis floor_divide_of_int_eq of_int_numeral)

lemma ceiling_neg_numeral_div_rat:
  "\<lceil>- (numeral a / numeral b) :: rat\<rceil> = - (numeral a div numeral b)"
  by (simp add: ceiling_def floor_numeral_div_rat)

lemmas convert_eval =
  trunc_def floor_numeral_div_rat ceiling_neg_numeral_div_rat convertSample_def ToInt16_def

lemma convertSample_in_range:
  assumes "- 1 \<le> x" "x \<le> 1"
  shows "sint (convertSample (Num x)) = trunc (min 1 x * 32767)"
proof -
  have m: "min 1 x = x" using assms by simp
  have "sint (word_of_int (trunc (x * 32767)) :: 16 word) = trunc (x * 32767)"
    using trunc_scaled_bounds [OF assms] by (intro sint_word_of_int_16) simp_all
  then show ?thesis by (simp add: convertSample_def ToInt16_def m)
qed

lemma convertSample_above_one:
  assumes "1 < x"
  shows "sint (convertSample (Num x)) = 32767"
proof -
  have m: "min 1 x = 1" using assms by simp
  show ?thesis by (simp add: convertSample_def ToInt16_def m trunc_def)
qed

text \<open>
  The loop fills the output from the last index down; after \<open>l\<close> remaining steps
  the first \<open>l\<close> cells hold the converted samples.
\<close>

lemma convertLoop_eq:
  "l \<le> length buffer \<Longrightarrow> length buf = length buffer \<Longrightarrow>
   convertLoop l buffer buf = map convertSample (take l buffer) @ drop l buf"
proof (induction l arbitrary: buf)
  case 0
  then show ?case by simp
next
  case (Suc l)
  then have l: "l < length buffer" by simp
  have "convertLoop (Suc l) buffer buf =
        map convertSample (take l buffer) @ drop l (buf[l := convertSample (buffer ! l)])"
    using Suc by simp
  also have "drop l (buf[l := convertSample (buffer ! l)]) =
             convertSample (buffer ! l) # drop (Suc l) buf"
    using l Suc.prems(2) by (simp add: Cons_nth_drop_Suc [symmetric])
  finally show ?case
    using l by (simp add: take_Suc_conv_app_nth)
qed

lemma convertFloat32ToInt16_map:
  "convertFloat32ToInt16 buffer = map convertSample buffer"
  by (simp add: convertFloat32ToInt16_def convertLoop_eq)

text \<open>
  C2, as the code has it. For every finite sample \<open>x\<close> in \<open>[-1, 1]\<close> the 16-bit
  signed value stored is \<open>min(1, x) * 32767\<close> with its fraction discarded (truncated
  towards zero, not rounded); for \<open>x > 1\<close> it is 32767; and the conversion of a
  buffer is the conversion of each of its samples in place, so the output has the
  length of the input.
\<close>

theorem convertFloat32ToInt16_truncates:
  "(- 1 \<le> x \<and> x \<le> 1 \<longrightarrow> sint (convertSample (Num x)) = trunc (min 1 x * 32767)) \<and>
   (1 < x \<longrightarrow> sint (convertSample (Num x)) = 32767) \<and>
   convertFloat32ToInt16 buffer = map convertSample buffer \<and>
   length (convertFloat32ToInt16 buffer) = length buffer"
  by (simp add: convertSample_in_range convertSample_above_one convertFloat32ToInt16_map)

theorem convertFloat32ToInt16_truncates_witness:
  "- 1 \<le> (- 1 / 4 :: rat) \<and> (- 1 / 4 :: rat) \<le> 1 \<and>
   sint (convertSample (Num (- 1 / 4))) = - 8191 \<and>
   (1 :: rat) < 2 \<and> sint (convertSample (Num 2)) = 32767 \<and>
   map sint (convertFloat32ToInt16 [Num (1 / 2), Num 2, Num (- 1)]) = [16383, 32767, - 32767] \<and>
   length (convertFloat32ToInt16 [Num (1 / 2), Num 2, Num (- 1)]) = 3"
  using convertFloat32ToInt16_truncates [of "- 1 / 4" "[Num (1 / 2), Num 2, Num (- 1)]"]
    convertFloat32ToInt16_truncates [of 2 "[]"]
  by (simp add: convert_eval)

text \<open>
  The sample \<open>1/4\<close> scales to \<open>8191.75\<close>: the code stores 8191, rounding gives 8192.
\<close>

theorem convertSample_round_counterexample:
  "- 1 \<le> (1 / 4 :: rat) \<and> (1 / 4 :: rat) \<le> 1 \<and>
   sint (convertSample (Num (1 / 4))) = 8191 \<and>
   round (min 1 (1 / 4) * 32767 :: rat) = 8192 \<and>
   sint (convertSample (Num (1 / 4))) \<noteq> round (min 1 (1 / 4) * 32767 :: rat)"
  by (simp add: convert_eval round_def)

section \<open>Properties of the relay of audio buffers\<close>

lemma onData_not_recording: "\<not> recording c \<Longrightarrow> onData c audioData = Inr c"
  by (simp add: onData_def)

lemma run_Data_not_recording: "\<not> recording c \<Longrightarrow> run c (map Data buffers) = Inr c"
  by (induction buffers) (simp_all add: onData_not_recording)

lemma run_before_ack:
  assumes "\<forall>e \<in> set evs. (\<exists>b. e = Data b) \<or> (\<exists>opts. e = Recording \<lparr>action = ''start'', options = opts\<rparr>)"
    and "\<not> recording c"
  shows "\<exists>c'. run c evs = Inr c' \<and> \<not> recording c' \<and> cloudSpeechApi c' = cloudSpeechApi c"
  using assms
proof (induction evs arbitrary: c)
  case Nil
  then show ?case by simp
next
  case (Cons e evs)
  from Cons.prems(1) consider (data) b where "e = Data b"
    | (start) opts where "e = Recording \<lparr>action = ''start'', options = opts\<rparr>"
    by auto
  then show ?case
  proof cases
    case data
    then have "step c e = Inr c"
      using Cons.prems(2) by (simp add: onData_not_recording)
    then show ?thesis
      using Cons.IH [of c] Cons.prems by simp
  next
    case start
    define c1 where "c1 = c\<lparr>pendingAuth := pendingAuth c @ [PendingStart opts]\<rparr>"
    have s: "step c e = Inr c1"
      using start by (simp add: onRecording_def c1_def)
    have "\<not> recording c1" "cloudSpeechApi c1 = cloudSpeechApi c"
      using Cons.prems(2) by (simp_all add: c1_def)
    then show ?thesis
      using Cons.IH [of c1] Cons.prems(1) s by simp
  qed
qed

text \<open>
  C1. While the \<open>recording\<close> variable of a connection is false, an inbound audio
  buffer changes nothing: the adapter is not called, so nothing is written to any
  streaming call, nothing is emitted, and no error is raised. That holds for one
  buffer and for any run of buffers; before the start acknowledgment (only buffers
  and start requests have arrived) no streaming call has been written to, or even
  opened; and after a stop message or a disconnect every buffer is dropped.
\<close>

theorem data_dropped_while_not_recording:
  "(\<not> recording c \<longrightarrow> step c (Data audioData) = Inr c) \<and>
   (\<not> recording c \<longrightarrow> run c (map Data buffers) = Inr c) \<and>
   ((\<forall>e \<in> set evs. (\<exists>b. e = Data b) \<or>
        (\<exists>opts. e = Recording \<lparr>action = ''start'', options = opts\<rparr>)) \<longrightarrow>
    (\<exists>c'. run connection evs = Inr c' \<and> \<not> recording c' \<and>
          cloudSpeechApi c' = CloudSpeechApi \<and> streams (cloudSpeechApi c') = [])) \<and>
   run (onRecording c \<lparr>action = ''stop'', options = opts\<rparr>) (map Data buffers) =
     Inr (onRecording c \<lparr>action = ''stop'', options = opts\<rparr>) \<and>
   run (onDisconnect c) (map Data buffers) = Inr (onDisconnect c)"
proof -
  have "\<not> recording connection"
    by (simp add: connection_def)
  then have before:
    "(\<forall>e \<in> set evs. (\<exists>b. e = Data b) \<or>
        (\<exists>opts. e = Recording \<lparr>action = ''start'', options = opts\<rparr>)) \<longrightarrow>
     (\<exists>c'. run connection evs = Inr c' \<and> \<not> recording c' \<and>
          cloudSpeechApi c' = CloudSpeechApi \<and> streams (cloudSpeechApi c') = [])"
    using run_before_ack [of evs connection]
    by (auto simp: connection_def CloudSpeechApi_def)
  have stop: "\<not> recording (onRecording c \<lparr>action = ''stop'', options = opts\<rparr>)"
    by (simp add: onRecording_def socket_emit_def)
  have disc: "\<not> recording (onDisconnect c)"
    by (simp add: onDisconnect_def)
  show ?thesis
    using before run_Data_not_recording [OF stop] run_Data_not_recording [OF disc]
    by (simp add: onData_not_recording run_Data_not_recording)
qed

theorem data_dropped_while_not_recording_witness:
  "\<not> recording connection \<and>
   step connection (Data [1, 2]) = Inr connection \<and>
   run connection (map Data [[1, 2], [3]]) = Inr connection \<and>
   (\<exists>c'. run connection
           [Data [1], Recording \<lparr>action = ''start'', options = None\<rparr>, Data [2]] = Inr c' \<and>
         \<not> recording c' \<and> cloudSpeechApi c' = CloudSpeechApi \<and>
         streams (cloudSpeechApi c') = [])"
proof -
  have nr: "\<not> recording connection"
    by (simp add: connection_def)
  have evs: "\<forall>e \<in> set [Data [1], Recording \<lparr>action = ''start'', options = None\<rparr>, Data [2]].
      (\<exists>b. e = Data b) \<or> (\<exists>opts. e = Recording \<lparr>action = ''start'', options = opts\<rparr>)"
    by simp
  show ?thesis
    using nr evs data_dropped_while_not_recording
      [of connection "[1, 2]" "[[1, 2], [3]]"
        "[Data [1], Recording \<lparr>action = ''start'', options = None\<rparr>, Data [2]]" None]
    by blast
qed

section \<open>Properties of the streaming data handler\<close>

lemma onStreamData_data:
  assumes "onStreamData resp = Some st" "st_type st = ''data''"
  shows "r_error resp = None \<and> (\<exists>x xs. r_results resp = Some (x # xs)) \<and>
         st_data st = r_results resp \<and> st_recording st"
  using assms
  by (auto simp: onStreamData_def split: option.splits list.splits)

lemma onStreamData_type:
  "onStreamData resp = Some st \<Longrightarrow> st_type st = ''data'' \<or> st_type st = ''error''"
  by (auto simp: onStreamData_def split: option.splits list.splits)

lemma onStreamData_silent:
  assumes "r_error resp = None" "r_results resp = None \<or> r_results resp = Some []"
  shows "onStreamData resp = None"
  using assms by (auto simp: onStreamData_def)

lemma onStreamData_error:
  assumes "r_error resp = Some err"
  shows "onStreamData resp = Some (onStreamError err)"
  using assms by (simp add: onStreamData_def onStreamError_def)

lemma statusCallback_emitted:
  "\<exists>new. emitted (statusCallback c st) = emitted c @ new \<and>
     (\<forall>p. Emit ''recordingData'' p \<in> set new \<longrightarrow> st_type st = ''data'' \<and> m_data p = st_data st)"
  by (simp add: statusCallback_def socket_emit_def Let_def)

lemma StreamData_emitted:
  assumes "step c (StreamData i resp) = Inr c'"
  shows "\<exists>new. emitted c' = emitted c @ new \<and>
     (\<forall>p. Emit ''recordingData'' p \<in> set new \<longrightarrow> (\<exists>x xs. m_data p = Some (x # xs)))"
proof (cases "streamExists c i")
  case False
  with assms show ?thesis by auto
next
  case True
  show ?thesis
  proof (cases "onStreamData resp")
    case None
    with True assms show ?thesis by auto
  next
    case (Some st)
    with True assms have c': "c' = statusCallback c st" by auto
    obtain new where new: "emitted c' = emitted c @ new"
      "\<forall>p. Emit ''recordingData'' p \<in> set new \<longrightarrow> st_type st = ''data'' \<and> m_data p = st_data st"
      using statusCallback_emitted [of c st] c' by blast
    have "\<exists>x xs. m_data p = Some (x # xs)" if "Emit ''recordingData'' p \<in> set new" for p
      using that new(2) onStreamData_data [OF Some] by metis
    with new(1) show ?thesis by blast
  qed
qed

lemma statusCallback_no_data:
  "st_type st \<noteq> ''data'' \<Longrightarrow>
   \<exists>new. emitted (statusCallback c st) = emitted c @ new \<and>
     (\<forall>p. Emit ''recordingData'' p \<notin> set new)"
  by (simp add: statusCallback_def socket_emit_def Let_def)

lemma streaming_step_emitted:
  assumes "step c ev = Inr c'" "\<forall>r. ev \<noteq> RpcCallback r"
  shows "\<exists>new. emitted c' = emitted c @ new \<and>
     (\<forall>p. Emit ''recordingData'' p \<in> set new \<longrightarrow> (\<exists>x xs. m_data p = Some (x # xs)))"
proof (cases ev)
  case (Recording ps)
  with assms(1) show ?thesis
    by (auto simp: onRecording_def socket_emit_def split: if_splits)
next
  case (RecogniseFile ad ps)
  with assms(1) show ?thesis
    by (auto simp: onRecogniseFile_def split: sum.splits)
next
  case Disconnect
  with assms(1) show ?thesis by (auto simp: onDisconnect_def)
next
  case (Data b)
  with assms(1) show ?thesis by (auto simp: onData_def split: if_splits sum.splits)
next
  case (AuthCallback i r)
  show ?thesis
  proof (cases "i < length (pendingAuth c)")
    case False
    with assms(1) AuthCallback show ?thesis by (simp add: onAuthCallback_def)
  next
    case True
    show ?thesis
    proof (cases "pendingAuth c ! i")
      case (PendingFile req)
      with assms(1) AuthCallback True show ?thesis
        by (auto simp: onAuthCallback_def Let_def split: sum.splits)
    next
      case (PendingStart opts)
      let ?c1 = "c\<lparr>pendingAuth := removeAt i (pendingAuth c)\<rparr>"
      from assms(1) AuthCallback True PendingStart obtain a st where
        st: "startRecording (cloudSpeechApi c) opts (getSpeechService r) = Inr (a, st)"
        and c': "c' = statusCallback (?c1\<lparr>cloudSpeechApi := a\<rparr>) st"
        by (auto simp: onAuthCallback_def Let_def split: sum.splits)
      have "st_type st \<noteq> ''data''"
        using startRecording_result [OF st] by simp
      from statusCallback_no_data [OF this, of "?c1\<lparr>cloudSpeechApi := a\<rparr>"] c'
      show ?thesis by auto
    qed
  qed
next
  case (RpcCallback r)
  with assms(2) show ?thesis by simp
next
  case (StreamError i err)
  have "st_type (onStreamError err) \<noteq> ''data''"
    by (simp add: onStreamError_def)
  from statusCallback_no_data [OF this, of c] assms(1) StreamError
  show ?thesis by (cases "streamExists c i") auto
next
  case (StreamData i resp)
  with assms(1) show ?thesis
    using StreamData_emitted [of c i resp c'] by simp
next
  case (StreamEnd i)
  have "st_type onStreamEnd \<noteq> ''data''"
    by (simp add: onStreamEnd_def)
  from statusCallback_no_data [OF this, of c] assms(1) StreamEnd
  show ?thesis by (cases "streamExists c i") auto
qed

text \<open>
  C10, as the code has it. The data handler of a streaming call invokes the callback
  with a data-type status only for a message that has no error and a non-empty result
  list, and the status carries that list. A message with no error whose results are
  absent or empty produces no invocation. A message that carries an error always
  produces an error-type invocation, whatever its results. So every
  \<open>recordingData\<close> event that a handler other than the callback of the one-shot
  recognition emits carries a non-empty result list.
\<close>

theorem onStreamData_data_needs_results:
  "(onStreamData resp = Some st \<and> st_type st = ''data'' \<longrightarrow>
      r_error resp = None \<and> (\<exists>x xs. r_results resp = Some (x # xs)) \<and>
      st_data st = r_results resp) \<and>
   (r_error resp = None \<and> (r_results resp = None \<or> r_results resp = Some []) \<longrightarrow>
      onStreamData resp = None) \<and>
   (r_error resp = Some err \<longrightarrow> onStreamData resp = Some (onStreamError err)) \<and>
   (step c ev = Inr c' \<and> (\<forall>r. ev \<noteq> RpcCallback r) \<longrightarrow>
      (\<exists>new. emitted c' = emitted c @ new \<and>
         (\<forall>p. Emit ''recordingData'' p \<in> set new \<longrightarrow> (\<exists>x xs. m_data p = Some (x # xs)))))"
  using onStreamData_data [of resp st] onStreamData_silent [of resp]
    onStreamData_error [of resp err] streaming_step_emitted [of c ev c']
  by blast

theorem onStreamData_data_needs_results_witness:
  "onStreamData \<lparr>r_error = None, r_results = Some [Result True [''hello'']]\<rparr> =
     Some \<lparr>st_type = ''data'', st_recording = True,
           st_data = Some [Result True [''hello'']], st_error = None\<rparr> \<and>
   (\<exists>x xs. r_results \<lparr>r_error = None, r_results = Some [Result True [''hello'']]\<rparr> =
      Some (x # xs)) \<and>
   onStreamData \<lparr>r_error = None, r_results = Some []\<rparr> = None \<and>
   onStreamData \<lparr>r_error = None, r_results = None\<rparr> = None \<and>
   onStreamData \<lparr>r_error = Some (ErrorObject ''quota''), r_results = None\<rparr> =
     Some (onStreamError (ErrorObject ''quota'')) \<and>
   (\<exists>c'. step
      (connection\<lparr>cloudSpeechApi :=
         CloudSpeechApi\<lparr>speechClient := Some 0, streams := [\<lparr>writes = [], ends = 0\<rparr>]\<rparr>\<rparr>)
      (StreamData 0 \<lparr>r_error = None, r_results = Some [Result True [''hello'']]\<rparr>) = Inr c' \<and>
      recording c' \<and>
      emitted c' =
        [Emit ''recordingData''
          \<lparr>m_recording = Some True, m_data = Some [Result True [''hello'']],
           m_error = None\<rparr>] \<and>
      (\<exists>new. emitted c' = emitted connection @ new \<and>
         (\<forall>p. Emit ''recordingData'' p \<in> set new \<longrightarrow> (\<exists>x xs. m_data p = Some (x # xs)))))"
proof -
  let ?r = "\<lparr>r_error = None, r_results = Some [Result True [''hello'']]\<rparr>"
  let ?st = "\<lparr>st_type = ''data'', st_recording = True,
           st_data = Some [Result True [''hello'']], st_error = None\<rparr>"
  let ?c = "connection\<lparr>cloudSpeechApi :=
         CloudSpeechApi\<lparr>speechClient := Some 0, streams := [\<lparr>writes = [], ends = 0\<rparr>]\<rparr>\<rparr>"
  have d: "onStreamData ?r = Some ?st"
    by (simp add: onStreamData_def)
  have dd: "\<exists>x xs. r_results ?r = Some (x # xs)"
    using d onStreamData_data_needs_results [of ?r ?st] by simp
  have e1: "r_error \<lparr>r_error = None, r_results = Some []\<rparr> = None \<and>
      (r_results \<lparr>r_error = None, r_results = Some []\<rparr> = None \<or>
       r_results \<lparr>r_error = None, r_results = Some []\<rparr> = Some [])"
    by simp
  have e2: "r_error \<lparr>r_error = None, r_results = None\<rparr> = None \<and>
      (r_results \<lparr>r_error = None, r_results = None\<rparr> = None \<or>
       r_results \<lparr>r_error = None, r_results = None\<rparr> = Some [])"
    by simp
  have e3: "r_error \<lparr>r_error = Some (ErrorObject ''quota''), r_results = None\<rparr> =
      Some (ErrorObject ''quota'')"
    by simp
  obtain c' where c': "step ?c (StreamData 0 ?r) = Inr c'" "recording c'"
    "emitted c' =
        [Emit ''recordingData''
          \<lparr>m_recording = Some True, m_data = Some [Result True [''hello'']],
           m_error = None\<rparr>]"
    "emitted ?c = emitted connection"
    by (simp add: onStreamData_def streamExists_def statusCallback_def socket_emit_def
        connection_def CloudSpeechApi_def)
  have n: "\<exists>new. emitted c' = emitted connection @ new \<and>
         (\<forall>p. Emit ''recordingData'' p \<in> set new \<longrightarrow> (\<exists>x xs. m_data p = Some (x # xs)))"
    using c'(1) onStreamData_data_needs_results [of ?r _ _ ?c "StreamData 0 ?r" c']
    unfolding c'(4) by blast
  have s1: "onStreamData \<lparr>r_error = None, r_results = Some []\<rparr> = None"
    using e1 onStreamData_data_needs_results [of "\<lparr>r_error = None, r_results = Some []\<rparr>"]
    by blast
  have s2: "onStreamData \<lparr>r_error = None, r_results = None\<rparr> = None"
    using e2 onStreamData_data_needs_results [of "\<lparr>r_error = None, r_results = None\<rparr>"]
    by blast
  have s3: "onStreamData \<lparr>r_error = Some (ErrorObject ''quota''), r_results = None\<rparr> =
      Some (onStreamError (ErrorObject ''quota''))"
    using e3 onStreamData_data_needs_results
      [of "\<lparr>r_error = Some (ErrorObject ''quota''), r_results = None\<rparr>" _
        "ErrorObject ''quota''"]
    by blast
  show ?thesis
    by (intro conjI exI [of _ c'] d dd s1 s2 s3 c'(1,2,3) n)
qed

text \<open>
  A message with an error and no results: the callback is invoked, with an
  error-type status, and the relay emits \<open>recordingError\<close>.
\<close>

theorem onStreamData_error_counterexample:
  "r_results \<lparr>r_error = Some (ErrorObject ''quota''), r_results = None\<rparr> = None \<and>
   onStreamData \<lparr>r_error = Some (ErrorObject ''quota''), r_results = None\<rparr> =
     Some \<lparr>st_type = ''error'', st_recording = False, st_data = None,
           st_error = Some (ErrorObject ''quota'')\<rparr> \<and>
   onStreamData \<lparr>r_error = Some (ErrorObject ''quota''), r_results = None\<rparr> \<noteq> None"
  by (simp add: onStreamData_def)

section \<open>Stop, and the events the client listens to\<close>

text \<open>
  C6 at the stop message. The handler closes the streaming call when there is one,
  clears the handle and sets \<open>recording\<close> to false, and it emits one event with the
  payload \<open>{recording: false, error: null}\<close>. The event is named
  \<open>recordingStatus\<close>; the client listens to \<open>recordingStatusChange\<close> (the name
  the start acknowledgment uses) and has no listener for \<open>recordingStatus\<close>, so
  the emission changes nothing on the client: after start, acknowledgment and stop,
  the client still has \<open>isRecording\<close> set and was told of one status change.
\<close>

theorem stop_emits_recordingStatus:
  "onRecording c \<lparr>action = ''stop'', options = opts\<rparr> =
     c\<lparr>cloudSpeechApi := stopRecording (cloudSpeechApi c), recording := False,
       emitted := emitted c @
         [Emit ''recordingStatus''
            \<lparr>m_recording = Some False, m_data = None, m_error = None\<rparr>]\<rparr> \<and>
   socket_on cl (Emit ''recordingStatus'' payload) = cl \<and>
   (\<exists>c'. run connection
           [Recording \<lparr>action = ''start'', options = None\<rparr>, AuthCallback 0 AuthClient,
            Recording \<lparr>action = ''stop'', options = None\<rparr>] = Inr c' \<and>
         \<not> recording c' \<and>
         speechClient (cloudSpeechApi c') = None \<and>
         map ends (streams (cloudSpeechApi c')) = [1] \<and>
         emitted c' =
           [Emit ''recordingStatusChange''
              \<lparr>m_recording = Some True, m_data = None, m_error = None\<rparr>,
            Emit ''recordingStatus''
              \<lparr>m_recording = Some False, m_data = None, m_error = None\<rparr>] \<and>
         foldl socket_on \<lparr>isRecording = False, audioContextOpen = True, notified = []\<rparr>
           (emitted c') =
           \<lparr>isRecording = True, audioContextOpen = True,
            notified = [(''onStatusChange'',
              \<lparr>m_recording = Some True, m_data = None, m_error = None\<rparr>)]\<rparr>)"
  by (simp add: onRecording_def socket_emit_def connection_def CloudSpeechApi_def
      onAuthCallback_def removeAt_def startRecording_def mergeOptions_def
      getSpeechService_def statusCallback_def stopRecording_def updateStream_def)

section \<open>Failures of the one-shot recognition\<close>

text \<open>
  C5 at a failed credential exchange. \<open>getSpeechService\<close> hands the error to its
  callback in the place of the service; \<open>recogniseFile\<close> calls
  \<open>nonStreamingRecognize\<close> on it, which throws: the callback of \<open>recogniseFile\<close>
  is not invoked and nothing is emitted. \<open>startRecording\<close> meets the same error
  object at \<open>streamingRecognize\<close>. A transport error of the call itself does reach
  the callback, as \<open>{success: false, error}\<close>, and is relayed as
  \<open>recordingError\<close>.
\<close>

theorem recogniseFile_auth_failure_throws:
  "getSpeechService (AuthFailed err) = ErrorArg err \<and>
   recogniseFile_service (getSpeechService (AuthFailed err)) = Inl TypeError \<and>
   run connection
     [RecogniseFile ''UklGRg=='' None, AuthCallback 0 (AuthFailed (ErrorObject ''no credentials''))] =
     Inl TypeError \<and>
   startRecording a None (getSpeechService (AuthFailed err)) = Inl TypeError \<and>
   recogniseFile_response (RpcFailed err) =
     Inr \<lparr>success = False, fr_data = None, fr_error = Some err\<rparr> \<and>
   (\<exists>c'. run connection
           [RecogniseFile ''UklGRg=='' None, AuthCallback 0 AuthClient,
            RpcCallback (RpcFailed (ErrorObject ''unavailable''))] = Inr c' \<and>
         emitted c' =
           [Emit ''recordingError''
              \<lparr>m_recording = None, m_data = None,
               m_error = Some (ErrorObject ''unavailable'')\<rparr>])"
  by (simp add: getSpeechService_def recogniseFile_service_def connection_def
      onRecogniseFile_def recogniseFile_def onAuthCallback_def removeAt_def
      startRecording_def mergeOptions_def recogniseFile_response_def onRpcCallback_def
      fileCallback_def socket_emit_def)

section \<open>Properties of processFileField\<close>

lemma indexOfFrom_char:
  "c \<notin> set xs \<Longrightarrow> indexOfFrom [c] (xs @ c # rest) i = int (i + length xs)"
  by (induction xs arbitrary: i) auto

lemma indexOf_audio: "indexOf (''data:audio/'' @ rest) ''audio/'' = 5"
  by (simp add: indexOf_def)

lemma indexOf_semicolon:
  assumes "CHR '';'' \<notin> set subtype"
  shows "indexOf (''data:audio/'' @ subtype @ '';'' @ rest) '';'' = 11 + int (length subtype)"
proof -
  have "CHR '';'' \<notin> set (''data:audio/'' @ subtype)"
    using assms by simp
  then have "indexOfFrom '';'' ((''data:audio/'' @ subtype) @ CHR '';'' # rest) 0 =
             int (0 + length (''data:audio/'' @ subtype))"
    by (rule indexOfFrom_char)
  then show ?thesis by (simp add: indexOf_def)
qed

lemma substring_middle:
  "substring (pre @ mid @ post) (int (length pre)) (int (length pre) + int (length mid)) = mid"
proof -
  have "min (int (length pre)) (int (length pre) + int (length mid) + int (length post)) =
        int (length pre)"
    by simp
  moreover have "min (int (length pre) + int (length mid))
        (int (length pre) + int (length mid) + int (length post)) =
        int (length pre) + int (length mid)"
    by simp
  ultimately show ?thesis
    by (simp add: substring_def Let_def add.assoc)
qed

lemma fileType_data_url:
  assumes "CHR '';'' \<notin> set subtype"
  shows "fileType (''data:audio/'' @ subtype @ '';'' @ rest) = subtype"
proof -
  let ?s = "''data:audio/'' @ subtype @ '';'' @ rest"
  have a: "indexOf ?s ''audio/'' + 6 = int (length ''data:audio/'')"
    using indexOf_audio [of "subtype @ '';'' @ rest"] by simp
  have b: "indexOf ?s '';'' = int (length ''data:audio/'') + int (length subtype)"
    using indexOf_semicolon [OF assms, of rest] by simp
  have "fileType ?s =
        substring ?s (int (length ''data:audio/''))
          (int (length ''data:audio/'') + int (length subtype))"
    unfolding fileType_def a b ..
  also have "\<dots> = subtype"
    by (rule substring_middle)
  finally show ?thesis .
qed

lemma processFileField_parameters:
  "snd (processFileField result) =
     [(''language'', JStr ''en-US''),
      (''encoding'', JStr (if toLowerCase (fileType result) = ''flac'' then ''FLAC''
                           else ''LINEAR16'')),
      (''sampleRate'', JNum 16000)]"
  by (simp add: processFileField_def setProp_def)

text \<open>
  C8. Whatever the reader hands over, the \<open>encoding\<close> parameter submitted is
  \<open>FLAC\<close> when the extracted file type, in lower case, is \<open>flac\<close>, and stays
  \<open>LINEAR16\<close> otherwise; the other parameters are not touched. On a data URL
  \<open>data:audio/<subtype>;...\<close> the extracted file type is the MIME subtype.
\<close>

theorem processFileField_encoding:
  "snd (processFileField result) =
     [(''language'', JStr ''en-US''),
      (''encoding'', JStr (if toLowerCase (fileType result) = ''flac'' then ''FLAC''
                           else ''LINEAR16'')),
      (''sampleRate'', JNum 16000)] \<and>
   (CHR '';'' \<notin> set subtype \<longrightarrow>
      fileType (''data:audio/'' @ subtype @ '';'' @ rest) = subtype \<and>
      getProp (snd (processFileField (''data:audio/'' @ subtype @ '';'' @ rest))) ''encoding'' =
        JStr (if toLowerCase subtype = ''flac'' then ''FLAC'' else ''LINEAR16''))"
  using fileType_data_url [of subtype rest]
  by (simp add: processFileField_parameters getProp_def)

theorem processFileField_encoding_witness:
  "CHR '';'' \<notin> set ''Flac'' \<and>
   fileType ''data:audio/Flac;base64,ZkxhQw=='' = ''Flac'' \<and>
   processFileField ''data:audio/Flac;base64,ZkxhQw=='' =
     (''ZkxhQw=='',
      [(''language'', JStr ''en-US''), (''encoding'', JStr ''FLAC''),
       (''sampleRate'', JNum 16000)]) \<and>
   CHR '';'' \<notin> set ''wav'' \<and>
   getProp (snd (processFileField ''data:audio/wav;base64,UklGRg=='')) ''encoding'' =
     JStr ''LINEAR16''"
  using processFileField_encoding [of "''data:audio/Flac;base64,ZkxhQw==''" "''Flac''" "''base64,ZkxhQw==''"]
    processFileField_encoding [of "''data:audio/wav;base64,UklGRg==''" "''wav''" "''base64,UklGRg==''"]
  by (simp add: toLowerCase_def toLowerChar_def processFileField_def indexOf_def
      substringFrom_def substring_def fileType_def setProp_def getProp_def)

section \<open>Properties of the option merge of startRecording\<close>

lemma keys_setProp:
  "k \<in> set (Object_keys ob) \<Longrightarrow> Object_keys (setProp ob k v) = Object_keys ob"
  by (simp add: Object_keys_def setProp_def update_keys)

lemma getProp_setProp:
  "getProp (setProp ob k v) k' = (if k' = k then v else getProp ob k')"
  by (simp add: getProp_def setProp_def update_conv')

lemma hasOwnProperty_Inr:
  "hasOwnProperty ob k = Inr b \<Longrightarrow> b = (k \<in> set (Object_keys ob))"
  by (auto simp: hasOwnProperty_def Object_keys_def split: if_splits)

lemma mergeInner_obj:
  "mergeInner (JObj d) inner iks = Inr t \<Longrightarrow>
   \<exists>d'. t = JObj d' \<and> Object_keys d' = Object_keys d \<and>
     (\<forall>ik \<in> set (Object_keys d).
        getProp d' ik = (if ik \<in> set iks then getProp inner ik else getProp d ik))"
proof (induction iks arbitrary: d)
  case Nil
  then show ?case by auto
next
  case (Cons ik iks)
  show ?case
  proof (cases "hasOwnProperty d ik")
    case (Inl e)
    with Cons.prems show ?thesis by simp
  next
    case (Inr b)
    show ?thesis
    proof (cases b)
      case True
      then have ik: "ik \<in> set (Object_keys d)"
        using hasOwnProperty_Inr [OF Inr] by simp
      let ?d1 = "setProp d ik (getProp inner ik)"
      from Cons.prems Inr True have "mergeInner (JObj ?d1) inner iks = Inr t" by simp
      from Cons.IH [OF this] obtain d' where d': "t = JObj d'"
        "Object_keys d' = Object_keys ?d1"
        "\<forall>x \<in> set (Object_keys ?d1).
           getProp d' x = (if x \<in> set iks then getProp inner x else getProp ?d1 x)"
        by blast
      have k1: "Object_keys ?d1 = Object_keys d"
        using ik by (rule keys_setProp)
      show ?thesis
        using d' by (auto simp: k1 getProp_setProp)
    next
      case False
      then have ik: "ik \<notin> set (Object_keys d)"
        using hasOwnProperty_Inr [OF Inr] by simp
      from Cons.prems Inr False have "mergeInner (JObj d) inner iks = Inr t" by simp
      from Cons.IH [OF this] obtain d' where d': "t = JObj d'"
        "Object_keys d' = Object_keys d"
        "\<forall>x \<in> set (Object_keys d).
           getProp d' x = (if x \<in> set iks then getProp inner x else getProp d x)"
        by blast
      show ?thesis
        using d' ik by auto
    qed
  qed
qed

lemma mergeInner_not_obj:
  "mergeInner target inner iks = Inr t \<Longrightarrow> (\<forall>d. target \<noteq> JObj d) \<Longrightarrow> t = target"
  by (induction iks) (auto split: jsval.splits if_splits)

lemma mergeInner_mergedValue:
  assumes "mergeInner dv inner (Object_keys inner) = Inr t"
  shows "mergedValue dv (JObj inner) t"
proof (cases "\<exists>d. dv = JObj d")
  case True
  then obtain d where d: "dv = JObj d" by blast
  from mergeInner_obj [OF assms [unfolded d]] show ?thesis
    by (auto simp: mergedValue_def innerMerged_def list_all_iff d)
next
  case False
  then have "t = dv"
    using mergeInner_not_obj [OF assms] by blast
  with False show ?thesis
    by (cases dv) (simp_all add: mergedValue_def)
qed

lemma innerMerged_trans:
  "innerMerged d inner d1 \<Longrightarrow> innerMerged d1 inner d2 \<Longrightarrow> innerMerged d inner d2"
  by (auto simp: innerMerged_def list_all_iff)

lemma mergedValue_trans:
  "mergedValue dv ov v1 \<Longrightarrow> mergedValue v1 ov v2 \<Longrightarrow> mergedValue dv ov v2"
  by (auto simp: mergedValue_def split: jsval.splits intro: innerMerged_trans)


lemma mergeStreaming_step:
  assumes "mergeStreaming so opts (k # ks) = Inr merged"
    and "k \<in> set (Object_keys so)"
  shows "\<exists>v. mergedValue (getProp so k) (getProp opts k) v \<and>
             mergeStreaming (setProp so k v) opts ks = Inr merged"
proof -
  have h: "hasOwnProperty so k = Inr True"
    using assms by (auto simp: hasOwnProperty_def Object_keys_def split: if_splits sum.splits)
  show ?thesis
  proof (cases "typeof (getProp opts k) = ''object''")
    case False
    then have "mergedValue (getProp so k) (getProp opts k) (getProp opts k)"
      by (cases "getProp opts k") (simp_all add: mergedValue_def typeof_def)
    moreover have "mergeStreaming (setProp so k (getProp opts k)) opts ks = Inr merged"
      using assms(1) h False by simp
    ultimately show ?thesis by blast
  next
    case True
    then obtain inner where inner: "getProp opts k = JObj inner"
      using assms(1) h by (cases "getProp opts k") simp_all
    then obtain t where t: "mergeInner (getProp so k) inner (Object_keys inner) = Inr t"
      "mergeStreaming (setProp so k t) opts ks = Inr merged"
      using assms(1) h True by (auto split: sum.splits)
    have "mergedValue (getProp so k) (getProp opts k) t"
      unfolding inner using t(1) by (rule mergeInner_mergedValue)
    with t(2) show ?thesis by blast
  qed
qed

lemma mergeStreaming_skip:
  assumes "mergeStreaming so opts (k # ks) = Inr merged"
    and "k \<notin> set (Object_keys so)"
  shows "mergeStreaming so opts ks = Inr merged"
proof -
  have "hasOwnProperty so k = Inr False"
    using assms by (auto simp: hasOwnProperty_def Object_keys_def split: if_splits sum.splits)
  with assms(1) show ?thesis by simp
qed

lemma mergeStreaming_char:
  "mergeStreaming so opts ks = Inr merged \<Longrightarrow>
   Object_keys merged = Object_keys so \<and>
   (\<forall>k \<in> set (Object_keys so).
      if k \<in> set ks then mergedValue (getProp so k) (getProp opts k) (getProp merged k)
      else getProp merged k = getProp so k)"
proof (induction ks arbitrary: so)
  case Nil
  then show ?case by auto
next
  case (Cons k ks)
  show ?case
  proof (cases "k \<in> set (Object_keys so)")
    case False
    from Cons.IH [OF mergeStreaming_skip [OF Cons.prems False]] False
    show ?thesis by auto
  next
    case True
    from mergeStreaming_step [OF Cons.prems True] obtain v where
      v: "mergedValue (getProp so k) (getProp opts k) v"
      and r: "mergeStreaming (setProp so k v) opts ks = Inr merged"
      by blast
    let ?so1 = "setProp so k v"
    have k1: "Object_keys ?so1 = Object_keys so"
      using True by (rule keys_setProp)
    from Cons.IH [OF r] have keys: "Object_keys merged = Object_keys so"
      and vals: "\<forall>x \<in> set (Object_keys so).
        if x \<in> set ks then mergedValue (getProp ?so1 x) (getProp opts x) (getProp merged x)
        else getProp merged x = getProp ?so1 x"
      by (simp_all add: k1)
    have "if x \<in> set (k # ks)
          then mergedValue (getProp so x) (getProp opts x) (getProp merged x)
          else getProp merged x = getProp so x"
      if x: "x \<in> set (Object_keys so)" for x
    proof (cases "x = k")
      case False
      with vals x show ?thesis by (auto simp: getProp_setProp)
    next
      case xk: True
      show ?thesis
      proof (cases "k \<in> set ks")
        case True
        with vals x xk have "mergedValue v (getProp opts k) (getProp merged k)"
          by (auto simp: getProp_setProp)
        with v xk show ?thesis by (auto intro: mergedValue_trans)
      next
        case False
        with vals x xk have "getProp merged k = v"
          by (auto simp: getProp_setProp)
        with v xk show ?thesis by simp
      qed
    qed
    with keys show ?thesis by blast
  qed
qed

lemma mergeOptions_allowListMerged:
  "mergeOptions defaults (Some override) = Inr merged \<Longrightarrow>
   allowListMerged defaults override merged"
  using mergeStreaming_char [of defaults override "Object_keys override" merged]
  by (simp add: mergeOptions_def allowListMerged_def list_all_iff)

lemma getProp_recognized:
  "k \<in> set (Object_keys defaults) \<Longrightarrow>
   getProp (recognized defaults override) k = getProp override k"
  by (induction override) (auto simp: getProp_def recognized_def)

lemma hasOwnProperty_plain:
  "''hasOwnProperty'' \<notin> set (Object_keys ob) \<Longrightarrow>
   hasOwnProperty ob k = Inr (k \<in> set (Object_keys ob))"
  by (simp add: hasOwnProperty_def Object_keys_def)

lemma mergeStreaming_recognized:
  "Object_keys so = Object_keys defaults \<Longrightarrow>
   ''hasOwnProperty'' \<notin> set (Object_keys defaults) \<Longrightarrow>
   mergeStreaming so (recognized defaults opts)
     (filter (\<lambda>k. k \<in> set (Object_keys defaults)) ks) =
   mergeStreaming so opts ks"
proof (induction ks arbitrary: so)
  case Nil
  then show ?case by simp
next
  case (Cons k ks)
  have h: "hasOwnProperty so k = Inr (k \<in> set (Object_keys defaults))"
    using Cons.prems hasOwnProperty_plain [of so k] by simp
  show ?case
  proof (cases "k \<in> set (Object_keys defaults)")
    case False
    then show ?thesis
      using h Cons.IH [OF Cons.prems] by simp
  next
    case True
    have keys: "Object_keys (setProp so k v) = Object_keys defaults" for v
      using True Cons.prems(1) keys_setProp [of k so v] by simp
    have ih: "mergeStreaming (setProp so k v) (recognized defaults opts)
                (filter (\<lambda>k. k \<in> set (Object_keys defaults)) ks) =
              mergeStreaming (setProp so k v) opts ks" for v
      using Cons.IH [OF keys Cons.prems(2)] .
    show ?thesis
      using True h
      by (simp add: getProp_recognized ih split: sum.splits jsval.splits)
  qed
qed

lemma Object_keys_recognized:
  "Object_keys (recognized defaults override) =
   filter (\<lambda>k. k \<in> set (Object_keys defaults)) (Object_keys override)"
  by (simp add: Object_keys_def recognized_def filter_map comp_def)

lemma mergeOptions_recognized:
  assumes "''hasOwnProperty'' \<notin> set (Object_keys defaults)"
  shows "mergeOptions defaults (Some (recognized defaults override)) =
         mergeOptions defaults (Some override)"
  using mergeStreaming_recognized [OF refl assms, of override "Object_keys override"]
  by (simp add: mergeOptions_def Object_keys_recognized)

lemma startRecording_merges:
  "startRecording a opts sv = Inr (a', st) \<Longrightarrow>
   mergeOptions (streamingOptions a) opts = Inr (streamingOptions a')"
  by (auto simp: startRecording_def split: sum.splits service_arg.splits)

text \<open>
  C3. The merge that \<open>startRecording\<close> applies is an allow-list merge, one level
  deep. Whenever it returns, the merged record has exactly the keys of the defaults;
  a key the client did not supply keeps its default; a supplied value that is not an
  object replaces the default of a recognized key; a supplied object changes, in a
  default sub-record, the keys that the sub-record already has, and nothing else.
  The keys of the client object that the defaults do not have are ignored: the merge
  of the client object and the merge of its recognized part are the same, result or
  exception (for defaults that, like the adapter's, have no key named
  \<open>hasOwnProperty\<close>). The record \<open>startRecording\<close> keeps is this merge of its
  current record. On the defaults and the override of the specification's example
  the result is the one it gives.
\<close>

theorem startRecording_merge_allow_list:
  "(mergeOptions defaults (Some override) = Inr merged \<longrightarrow>
      allowListMerged defaults override merged) \<and>
   (''hasOwnProperty'' \<notin> set (Object_keys defaults) \<longrightarrow>
      mergeOptions defaults (Some (recognized defaults override)) =
      mergeOptions defaults (Some override)) \<and>
   (startRecording a opts sv = Inr (a', st) \<longrightarrow>
      mergeOptions (streamingOptions a) opts = Inr (streamingOptions a')) \<and>
   mergeOptions [(''sampleRate'', JNum 41000), (''languageCode'', JStr ''en-US'')]
     (Some [(''sampleRate'', JNum 16000), (''unknownKey'', JStr ''x'')]) =
   Inr [(''sampleRate'', JNum 16000), (''languageCode'', JStr ''en-US'')]"
proof -
  have "mergeOptions [(''sampleRate'', JNum 41000), (''languageCode'', JStr ''en-US'')]
     (Some [(''sampleRate'', JNum 16000), (''unknownKey'', JStr ''x'')]) =
   Inr [(''sampleRate'', JNum 16000), (''languageCode'', JStr ''en-US'')]"
    by (simp add: mergeOptions_def Object_keys_def hasOwnProperty_def getProp_def
        typeof_def setProp_def)
  then show ?thesis
    using mergeOptions_allowListMerged [of defaults override merged]
      mergeOptions_recognized [of defaults override]
      startRecording_merges [of a opts sv a' st]
    by blast
qed

lemmas merge_eval =
  mergeOptions_def Object_keys_def hasOwnProperty_def getProp_def typeof_def setProp_def

theorem startRecording_merge_allow_list_witness:
  "mergeOptions defaultStreamingOptions
     (Some [(''config'', JObj [(''sampleRate'', JNum 16000), (''unknownKey'', JStr ''x'')]),
            (''interimResults'', JBool False), (''verbose'', JBool True)]) =
   Inr [(''config'', JObj
          [(''encoding'', JStr ''LINEAR16''),
           (''sampleRate'', JNum 16000),
           (''languageCode'', JStr ''en-US''),
           (''profanityFilter'', JBool True),
           (''speechContext'', JNull)]),
        (''interimResults'', JBool False),
        (''singleUtterance'', JBool False)] \<and>
   allowListMerged defaultStreamingOptions
     [(''config'', JObj [(''sampleRate'', JNum 16000), (''unknownKey'', JStr ''x'')]),
      (''interimResults'', JBool False), (''verbose'', JBool True)]
     [(''config'', JObj
          [(''encoding'', JStr ''LINEAR16''),
           (''sampleRate'', JNum 16000),
           (''languageCode'', JStr ''en-US''),
           (''profanityFilter'', JBool True),
           (''speechContext'', JNull)]),
        (''interimResults'', JBool False),
        (''singleUtterance'', JBool False)] \<and>
   ''hasOwnProperty'' \<notin> set (Object_keys defaultStreamingOptions) \<and>
   recognized defaultStreamingOptions
     [(''config'', JObj [(''sampleRate'', JNum 16000), (''unknownKey'', JStr ''x'')]),
      (''interimResults'', JBool False), (''verbose'', JBool True)] =
     [(''config'', JObj [(''sampleRate'', JNum 16000), (''unknownKey'', JStr ''x'')]),
      (''interimResults'', JBool False)] \<and>
   startRecording CloudSpeechApi (Some [(''singleUtterance'', JBool True)]) SpeechService =
     Inr (CloudSpeechApi
            \<lparr>streamingOptions :=
               [(''config'', JObj
                  [(''encoding'', JStr ''LINEAR16''),
                   (''sampleRate'', JNum 41000),
                   (''languageCode'', JStr ''en-US''),
                   (''profanityFilter'', JBool True),
                   (''speechContext'', JNull)]),
                (''interimResults'', JBool True),
                (''singleUtterance'', JBool True)],
             speechClient := Some 0,
             streams := [\<lparr>writes = [], ends = 0\<rparr>]\<rparr>,
          \<lparr>st_type = ''status'', st_recording = True, st_data = None, st_error = None\<rparr>) \<and>
   mergeOptions (streamingOptions CloudSpeechApi) (Some [(''singleUtterance'', JBool True)]) =
     Inr (streamingOptions
       (CloudSpeechApi
            \<lparr>streamingOptions :=
               [(''config'', JObj
                  [(''encoding'', JStr ''LINEAR16''),
                   (''sampleRate'', JNum 41000),
                   (''languageCode'', JStr ''en-US''),
                   (''profanityFilter'', JBool True),
                   (''speechContext'', JNull)]),
                (''interimResults'', JBool True),
                (''singleUtterance'', JBool True)],
             speechClient := Some 0,
             streams := [\<lparr>writes = [], ends = 0\<rparr>]\<rparr>))"
proof -
  let ?ov = "[(''config'', JObj [(''sampleRate'', JNum 16000), (''unknownKey'', JStr ''x'')]),
            (''interimResults'', JBool False), (''verbose'', JBool True)]"
  let ?m = "[(''config'', JObj
          [(''encoding'', JStr ''LINEAR16''),
           (''sampleRate'', JNum 16000),
           (''languageCode'', JStr ''en-US''),
           (''profanityFilter'', JBool True),
           (''speechContext'', JNull)]),
        (''interimResults'', JBool False),
        (''singleUtterance'', JBool False)]"
  have m: "mergeOptions defaultStreamingOptions (Some ?ov) = Inr ?m"
    by (simp add: merge_eval defaultStreamingOptions_def)
  have h: "''hasOwnProperty'' \<notin> set (Object_keys defaultStreamingOptions)"
    by (simp add: Object_keys_def defaultStreamingOptions_def)
  have r: "recognized defaultStreamingOptions ?ov =
     [(''config'', JObj [(''sampleRate'', JNum 16000), (''unknownKey'', JStr ''x'')]),
      (''interimResults'', JBool False)]"
    by (simp add: recognized_def Object_keys_def defaultStreamingOptions_def)
  have s: "startRecording CloudSpeechApi (Some [(''singleUtterance'', JBool True)]) SpeechService =
     Inr (CloudSpeechApi
            \<lparr>streamingOptions :=
               [(''config'', JObj
                  [(''encoding'', JStr ''LINEAR16''),
                   (''sampleRate'', JNum 41000),
                   (''languageCode'', JStr ''en-US''),
                   (''profanityFilter'', JBool True),
                   (''speechContext'', JNull)]),
                (''interimResults'', JBool True),
                (''singleUtterance'', JBool True)],
             speechClient := Some 0,
             streams := [\<lparr>writes = [], ends = 0\<rparr>]\<rparr>,
          \<lparr>st_type = ''status'', st_recording = True, st_data = None, st_error = None\<rparr>)"
    by (simp add: startRecording_def merge_eval CloudSpeechApi_def defaultStreamingOptions_def)
  let ?a' = "CloudSpeechApi
            \<lparr>streamingOptions :=
               [(''config'', JObj
                  [(''encoding'', JStr ''LINEAR16''),
                   (''sampleRate'', JNum 41000),
                   (''languageCode'', JStr ''en-US''),
                   (''profanityFilter'', JBool True),
                   (''speechContext'', JNull)]),
                (''interimResults'', JBool True),
                (''singleUtterance'', JBool True)],
             speechClient := Some 0,
             streams := [\<lparr>writes = [], ends = 0\<rparr>]\<rparr>"
  have k: "mergeOptions (streamingOptions CloudSpeechApi)
      (Some [(''singleUtterance'', JBool True)]) = Inr (streamingOptions ?a')"
    using s startRecording_merge_allow_list
      [of _ _ _ CloudSpeechApi "Some [(''singleUtterance'', JBool True)]" SpeechService ?a'
        "\<lparr>st_type = ''status'', st_recording = True, st_data = None, st_error = None\<rparr>"]
    by blast
  show ?thesis
    using m h r s k startRecording_merge_allow_list [of defaultStreamingOptions ?ov ?m]
    by blast
qed

section \<open>What one merge writes into the adapter's records\<close>

lemma mergeNonStreaming_char:
  "mergeNonStreaming req ps ks = Inr req' \<Longrightarrow>
   getProp req' k =
     (if k \<in> set ks \<and> k \<in> set (Object_keys ps) then getProp ps k else getProp req k)"
proof (induction ks arbitrary: req)
  case Nil
  then show ?case by simp
next
  case (Cons x ks)
  show ?case
  proof (cases "hasOwnProperty ps x")
    case (Inl e)
    with Cons.prems show ?thesis by simp
  next
    case (Inr b)
    then have b: "b = (x \<in> set (Object_keys ps))"
      by (rule hasOwnProperty_Inr)
    show ?thesis
    proof (cases b)
      case True
      with Cons.prems Inr
      have "mergeNonStreaming (setProp req x (getProp ps x)) ps ks = Inr req'" by simp
      from Cons.IH [OF this] show ?thesis
        using True b by (auto simp: getProp_setProp)
    next
      case False
      with Cons.prems Inr have "mergeNonStreaming req ps ks = Inr req'" by simp
      from Cons.IH [OF this] show ?thesis
        using False b by auto
    qed
  qed
qed

lemma recogniseFile_Some:
  assumes "recogniseFile a audioData (Some ps) = Inr (a', r)"
  shows "initialRecognizeRequest r = nonStreamingOptions a' \<and>
         audioRequest r = audioData \<and>
         (\<forall>k. getProp (nonStreamingOptions a') k =
            (if k \<in> set (Object_keys (nonStreamingOptions a)) \<and> k \<in> set (Object_keys ps)
             then getProp ps k else getProp (nonStreamingOptions a) k))"
proof -
  from assms obtain req where req:
    "mergeNonStreaming (nonStreamingOptions a) ps (Object_keys (nonStreamingOptions a)) = Inr req"
    "a' = a\<lparr>nonStreamingOptions := req\<rparr>"
    "r = \<lparr>initialRecognizeRequest = req, audioRequest = audioData\<rparr>"
    by (auto simp: recogniseFile_def split: sum.splits)
  show ?thesis
    using mergeNonStreaming_char [OF req(1)] by (simp add: req(2,3))
qed

lemma recogniseFile_None:
  "recogniseFile a audioData None =
   Inr (a, \<lparr>initialRecognizeRequest = nonStreamingOptions a, audioRequest = audioData\<rparr>)"
  by (simp add: recogniseFile_def)

lemma allowListMerged_value:
  assumes "allowListMerged defaults override merged" "k \<in> set (Object_keys defaults)"
  shows "if k \<in> set (Object_keys override)
         then mergedValue (getProp defaults k) (getProp override k) (getProp merged k)
         else getProp merged k = getProp defaults k"
  using assms by (simp add: allowListMerged_def list_all_iff)

lemma mergeOptions_keeps:
  assumes "mergeOptions so opts = Inr so'" "k \<in> set (Object_keys so)"
    and "\<forall>os. opts = Some os \<longrightarrow> k \<notin> set (Object_keys os)"
  shows "getProp so' k = getProp so k"
proof (cases opts)
  case None
  with assms(1) show ?thesis by (simp add: mergeOptions_def)
next
  case (Some os)
  with assms(3) have "k \<notin> set (Object_keys os)" by simp
  with allowListMerged_value [OF mergeOptions_allowListMerged [OF assms(1) [unfolded Some]] assms(2)]
  show ?thesis by simp
qed

lemma mergeOptions_keys:
  assumes "mergeOptions so opts = Inr so'"
  shows "Object_keys so' = Object_keys so"
proof (cases opts)
  case None
  with assms(1) show ?thesis by (simp add: mergeOptions_def)
next
  case (Some os)
  with mergeOptions_allowListMerged [OF assms(1) [unfolded Some]]
  show ?thesis by (simp add: allowListMerged_def)
qed

lemma innerMerged_value:
  assumes "innerMerged d inner d'" "ik \<in> set (Object_keys d)"
  shows "getProp d' ik = (if ik \<in> set (Object_keys inner) then getProp inner ik else getProp d ik)"
  using assms by (simp add: innerMerged_def list_all_iff)

section \<open>Invariants of the streaming sessions\<close>

lemma cloudSpeechApi_socket_emit [simp]:
  "cloudSpeechApi (socket_emit c name payload) = cloudSpeechApi c"
  by (simp add: socket_emit_def)

lemma cloudSpeechApi_statusCallback [simp]:
  "cloudSpeechApi (statusCallback c st) = cloudSpeechApi c"
  by (simp add: statusCallback_def Let_def)

lemma cloudSpeechApi_fileCallback [simp]:
  "cloudSpeechApi (fileCallback c resp) = cloudSpeechApi c"
  by (simp add: fileCallback_def)

text \<open>Every handler moves the adapter by at most one call of its interface.\<close>

lemma step_adapter:
  assumes "step c e = Inr c'"
  shows "cloudSpeechApi c' = cloudSpeechApi c \<or>
         cloudSpeechApi c' = stopRecording (cloudSpeechApi c) \<or>
         (\<exists>b. recognise (cloudSpeechApi c) b = Inr (cloudSpeechApi c')) \<or>
         (\<exists>opts sv st. startRecording (cloudSpeechApi c) opts sv = Inr (cloudSpeechApi c', st)) \<or>
         (\<exists>ad ps r. recogniseFile (cloudSpeechApi c) ad ps = Inr (cloudSpeechApi c', r))"
proof (cases e)
  case (Recording ps)
  with assms show ?thesis by (auto simp: onRecording_def split: if_splits)
next
  case (RecogniseFile ad ps)
  with assms show ?thesis by (auto simp: onRecogniseFile_def split: sum.splits)
next
  case Disconnect
  with assms show ?thesis by (auto simp: onDisconnect_def)
next
  case (Data b)
  with assms show ?thesis by (auto simp: onData_def split: if_splits sum.splits)
next
  case (AuthCallback i r)
  with assms show ?thesis
    by (auto simp: onAuthCallback_def Let_def split: if_splits pending.splits sum.splits)
next
  case (RpcCallback r)
  with assms show ?thesis by (auto simp: onRpcCallback_def split: if_splits sum.splits)
next
  case (StreamError i err)
  with assms show ?thesis by auto
next
  case (StreamData i resp)
  with assms show ?thesis by (auto split: option.splits)
next
  case (StreamEnd i)
  with assms show ?thesis by auto
qed

lemma run_adapter_preserves:
  assumes "run c evs = Inr c'" "P (cloudSpeechApi c)"
    and pstop: "\<And>a. P a \<Longrightarrow> P (stopRecording a)"
    and pwrite: "\<And>a b a'. P a \<Longrightarrow> recognise a b = Inr a' \<Longrightarrow> P a'"
    and pstart: "\<And>a opts sv a' st. P a \<Longrightarrow> startRecording a opts sv = Inr (a', st) \<Longrightarrow> P a'"
    and pfile: "\<And>a ad ps a' r. P a \<Longrightarrow> recogniseFile a ad ps = Inr (a', r) \<Longrightarrow> P a'"
  shows "P (cloudSpeechApi c')"
  using assms(1,2)
proof (induction evs arbitrary: c)
  case Nil
  then show ?case by simp
next
  case (Cons e evs)
  then obtain c1 where c1: "step c e = Inr c1" "run c1 evs = Inr c'"
    by (auto split: sum.splits)
  have "P (cloudSpeechApi c1)"
    using step_adapter [OF c1(1)] Cons.prems(2) pstop pwrite pstart pfile by metis
  with Cons.IH c1(2) show ?case by blast
qed


lemma all_audio_map:
  "list_all isAudioContent ws \<Longrightarrow> \<exists>bufs. ws = map AudioContent bufs"
proof (induction ws)
  case Nil
  then show ?case by simp
next
  case (Cons m ws)
  then obtain bufs where "ws = map AudioContent bufs" by auto
  moreover from Cons.prems obtain b where "m = AudioContent b"
    by (cases m) (simp_all add: isAudioContent_def)
  ultimately have "m # ws = map AudioContent (b # bufs)" by simp
  then show ?case by (rule exI)
qed

lemma configFirst_iff:
  "configFirst ws \<longleftrightarrow>
   ws = [] \<or> (\<exists>cfg bufs. ws = StreamingConfig cfg # map AudioContent bufs)"
proof
  assume "configFirst ws"
  then show "ws = [] \<or> (\<exists>cfg bufs. ws = StreamingConfig cfg # map AudioContent bufs)"
    using all_audio_map
    by (auto simp: configFirst_def split: list.splits write_msg.splits)
next
  assume "ws = [] \<or> (\<exists>cfg bufs. ws = StreamingConfig cfg # map AudioContent bufs)"
  then show "configFirst ws"
    by (auto simp: configFirst_def list_all_iff isAudioContent_def)
qed

lemma configFirst_snoc:
  "configFirst (m # ws) \<Longrightarrow> configFirst ((m # ws) @ [AudioContent b])"
  by (auto simp: configFirst_def isAudioContent_def split: write_msg.splits)

lemma sessionInvariant_init: "sessionInvariant CloudSpeechApi"
  by (simp add: sessionInvariant_def CloudSpeechApi_def)

lemma sessionInvariant_stopRecording:
  assumes "sessionInvariant a"
  shows "sessionInvariant (stopRecording a)"
proof (cases "speechClient a")
  case None
  with assms show ?thesis by (simp add: sessionInvariant_def stopRecording_def)
next
  case (Some i)
  with assms have i: "i < length (streams a)" "ends (streams a ! i) = 0"
    and all: "\<forall>n < length (streams a). configFirst (writes (streams a ! n)) \<and> ends (streams a ! n) \<le> 1"
    by (simp_all add: sessionInvariant_def list_all_length)
  show ?thesis
    using i all Some
    by (simp add: sessionInvariant_def stopRecording_def updateStream_def list_all_length
        nth_list_update)
qed

lemma sessionInvariant_recognise:
  assumes "sessionInvariant a" "recognise a b = Inr a'"
  shows "sessionInvariant a'"
proof -
  from assms(2) obtain i where sc: "speechClient a = Some i"
    by (cases "speechClient a")
      (auto simp: recognise_def speechClient_write_def split: if_splits)
  from assms(1) sc have i: "i < length (streams a)" "ends (streams a ! i) = 0"
    and all: "\<forall>n < length (streams a). configFirst (writes (streams a ! n)) \<and> ends (streams a ! n) \<le> 1"
    and cur: "case writes (streams a ! i) of [] \<Rightarrow> initialRequest a
              | m # _ \<Rightarrow> \<not> initialRequest a \<and> m = StreamingConfig (streamingOptions a)"
    by (simp_all add: sessionInvariant_def list_all_length)
  show ?thesis
  proof (cases "initialRequest a")
    case True
    with cur have empty: "writes (streams a ! i) = []"
      by (simp split: list.splits)
    have a': "a' = a\<lparr>streams := (streams a)[i := (streams a ! i)
                  \<lparr>writes := [StreamingConfig (streamingOptions a), AudioContent b]\<rparr>],
                initialRequest := False\<rparr>"
      using assms(2) sc True i empty
      by (auto simp: recognise_def speechClient_write_def updateStream_def)
    show ?thesis
      using i all sc
      by (simp add: a' sessionInvariant_def list_all_length nth_list_update configFirst_def
          isAudioContent_def)
  next
    case False
    with cur obtain m ws where mws: "writes (streams a ! i) = m # ws"
      "m = StreamingConfig (streamingOptions a)"
      by (auto split: list.splits)
    have a': "a' = a\<lparr>streams := (streams a)[i := (streams a ! i)
                  \<lparr>writes := (m # ws) @ [AudioContent b]\<rparr>]\<rparr>"
      using assms(2) sc False i mws
      by (auto simp: recognise_def speechClient_write_def updateStream_def)
    have "configFirst (m # ws)"
      using all i mws by metis
    then have "configFirst ((m # ws) @ [AudioContent b])"
      by (rule configFirst_snoc)
    then show ?thesis
      using i all sc False mws(2)
      by (simp add: a' sessionInvariant_def list_all_length nth_list_update)
  qed
qed

lemma sessionInvariant_startRecording:
  assumes "sessionInvariant a" "startRecording a opts sv = Inr (a', st)"
  shows "sessionInvariant a'"
proof -
  have r: "speechClient a' = Some (length (streams a))" "initialRequest a'"
    "streams a' = streams a @ [\<lparr>writes = [], ends = 0\<rparr>]"
    using startRecording_result [OF assms(2)] by simp_all
  have "list_all (\<lambda>s. configFirst (writes s) \<and> ends s \<le> 1) (streams a)"
    using assms(1) by (simp add: sessionInvariant_def)
  then show ?thesis
    by (simp add: sessionInvariant_def r configFirst_def)
qed

lemma sessionInvariant_recogniseFile:
  assumes "sessionInvariant a" "recogniseFile a ad ps = Inr (a', r)"
  shows "sessionInvariant a'"
proof -
  from assms(2) obtain req where "a' = a\<lparr>nonStreamingOptions := req\<rparr>"
    by (auto simp: recogniseFile_def split: sum.splits)
  with assms(1) show ?thesis
    by (simp add: sessionInvariant_def split: option.splits list.splits)
qed

lemma run_sessionInvariant:
  assumes "run connection evs = Inr c"
  shows "sessionInvariant (cloudSpeechApi c)"
proof (rule run_adapter_preserves [OF assms])
  show "sessionInvariant (cloudSpeechApi connection)"
    by (simp add: connection_def sessionInvariant_init)
qed (fact sessionInvariant_stopRecording sessionInvariant_recognise
      sessionInvariant_startRecording sessionInvariant_recogniseFile)+


lemma recognise_writes:
  assumes "speechClient a = Some i" "i < length (streams a)"
  shows "recognise a b =
     Inr (a\<lparr>streams := (streams a)[i := (streams a ! i)
             \<lparr>writes := writes (streams a ! i) @
                (if initialRequest a then [StreamingConfig (streamingOptions a)] else []) @
                [AudioContent b]\<rparr>],
           initialRequest := False\<rparr>)"
  using assms by (simp add: recognise_def speechClient_write_def updateStream_def)

lemma run_Data_session:
  assumes "recording c" "speechClient (cloudSpeechApi c) = Some i"
    "i < length (streams (cloudSpeechApi c))"
  shows "\<exists>c'. run c (map Data bufs) = Inr c' \<and>
     writes (streams (cloudSpeechApi c') ! i) =
       writes (streams (cloudSpeechApi c) ! i) @
       (if initialRequest (cloudSpeechApi c) \<and> bufs \<noteq> []
        then [StreamingConfig (streamingOptions (cloudSpeechApi c))] else []) @
       map AudioContent bufs"
  using assms
proof (induction bufs arbitrary: c)
  case Nil
  then show ?case by simp
next
  case (Cons b bufs)
  let ?a = "cloudSpeechApi c"
  let ?a1 = "?a\<lparr>streams := (streams ?a)[i := (streams ?a ! i)
             \<lparr>writes := writes (streams ?a ! i) @
                (if initialRequest ?a then [StreamingConfig (streamingOptions ?a)] else []) @
                [AudioContent b]\<rparr>],
           initialRequest := False\<rparr>"
  let ?c1 = "c\<lparr>cloudSpeechApi := ?a1\<rparr>"
  have s: "step c (Data b) = Inr ?c1"
    using Cons.prems by (simp add: onData_def recognise_writes)
  have p: "recording ?c1" "speechClient (cloudSpeechApi ?c1) = Some i"
    "i < length (streams (cloudSpeechApi ?c1))"
    using Cons.prems by simp_all
  from Cons.IH [OF p] obtain c' where c': "run ?c1 (map Data bufs) = Inr c'"
    "writes (streams (cloudSpeechApi c') ! i) =
       writes (streams (cloudSpeechApi ?c1) ! i) @
       (if initialRequest (cloudSpeechApi ?c1) \<and> bufs \<noteq> []
        then [StreamingConfig (streamingOptions (cloudSpeechApi ?c1))] else []) @
       map AudioContent bufs"
    by blast
  have "run c (map Data (b # bufs)) = Inr c'"
    using s c'(1) by simp
  moreover have "writes (streams (cloudSpeechApi c') ! i) =
       writes (streams ?a ! i) @
       (if initialRequest ?a \<and> b # bufs \<noteq> []
        then [StreamingConfig (streamingOptions ?a)] else []) @
       map AudioContent (b # bufs)"
    using c'(2) Cons.prems(3) by simp
  ultimately show ?case by blast
qed

lemma session_writes_in_order:
  assumes "startRecording a opts sv = Inr (a', st)" "cloudSpeechApi c = a'" "recording c"
    "bufs \<noteq> []"
  shows "\<exists>c'. run c (map Data bufs) = Inr c' \<and>
     writes (streams (cloudSpeechApi c') ! length (streams a)) =
       StreamingConfig (streamingOptions a') # map AudioContent bufs"
proof -
  have r: "speechClient a' = Some (length (streams a))" "initialRequest a'"
    "streams a' = streams a @ [\<lparr>writes = [], ends = 0\<rparr>]"
    using startRecording_result [OF assms(1)] by simp_all
  have "speechClient (cloudSpeechApi c) = Some (length (streams a))"
    "length (streams a) < length (streams (cloudSpeechApi c))"
    using r assms(2) by simp_all
  from run_Data_session [OF assms(3) this, of bufs] show ?thesis
    using r assms(2,4) by simp
qed

lemma reachable_writes_in_order:
  assumes "run connection evs = Inr c"
  shows "(\<forall>s \<in> set (streams (cloudSpeechApi c)).
           writes s = [] \<or> (\<exists>cfg bufs. writes s = StreamingConfig cfg # map AudioContent bufs)) \<and>
         (\<forall>i m ws. speechClient (cloudSpeechApi c) = Some i \<and>
            writes (streams (cloudSpeechApi c) ! i) = m # ws \<longrightarrow>
            m = StreamingConfig (streamingOptions (cloudSpeechApi c)))"
proof -
  have inv: "sessionInvariant (cloudSpeechApi c)"
    using assms by (rule run_sessionInvariant)
  then have "\<forall>s \<in> set (streams (cloudSpeechApi c)). configFirst (writes s)"
    by (simp add: sessionInvariant_def list_all_iff)
  moreover have "m = StreamingConfig (streamingOptions (cloudSpeechApi c))"
    if "speechClient (cloudSpeechApi c) = Some i"
      "writes (streams (cloudSpeechApi c) ! i) = m # ws" for i m ws
    using inv that by (simp add: sessionInvariant_def)
  ultimately show ?thesis
    by (simp add: configFirst_iff)
qed

text \<open>
  C4. In every state a connection can reach, what was written to each streaming
  session is empty or is one configuration message followed by audio chunks only,
  and the configuration message of the session in use is the adapter's merged
  \<open>streamingOptions\<close>. From the moment \<open>startRecording\<close> has opened a session,
  any non-empty run of audio buffers is written without error as the configuration
  message, once and first, and then the buffers in their order.
\<close>

theorem config_written_once_first:
  "(run connection evs = Inr c \<longrightarrow>
      (\<forall>s \<in> set (streams (cloudSpeechApi c)).
         writes s = [] \<or> (\<exists>cfg bufs. writes s = StreamingConfig cfg # map AudioContent bufs)) \<and>
      (\<forall>i m ws. speechClient (cloudSpeechApi c) = Some i \<and>
         writes (streams (cloudSpeechApi c) ! i) = m # ws \<longrightarrow>
         m = StreamingConfig (streamingOptions (cloudSpeechApi c)))) \<and>
   (startRecording a opts sv = Inr (a', st) \<and> cloudSpeechApi c0 = a' \<and> recording c0 \<and>
    buffers \<noteq> [] \<longrightarrow>
      (\<exists>c'. run c0 (map Data buffers) = Inr c' \<and>
         writes (streams (cloudSpeechApi c') ! length (streams a)) =
           StreamingConfig (streamingOptions a') # map AudioContent buffers))"
  using reachable_writes_in_order [of evs c]
    session_writes_in_order [of a opts sv a' st c0 buffers]
  by blast

lemmas connection_eval =
  connection_def CloudSpeechApi_def onRecording_def onAuthCallback_def removeAt_def
  startRecording_def mergeOptions_def getSpeechService_def statusCallback_def
  socket_emit_def onData_def recognise_def speechClient_write_def updateStream_def
  onDisconnect_def stopRecording_def

theorem config_written_once_first_witness:
  "(\<exists>c. run connection
          [Recording \<lparr>action = ''start'', options = None\<rparr>, AuthCallback 0 AuthClient,
           Data [1, 2], Data [3]] = Inr c \<and>
        map writes (streams (cloudSpeechApi c)) =
          [[StreamingConfig defaultStreamingOptions, AudioContent [1, 2], AudioContent [3]]] \<and>
        (writes (streams (cloudSpeechApi c) ! 0) = [] \<or>
         (\<exists>cfg bufs. writes (streams (cloudSpeechApi c) ! 0) =
            StreamingConfig cfg # map AudioContent bufs))) \<and>
   (\<exists>a' st c'.
      startRecording CloudSpeechApi None SpeechService = Inr (a', st) \<and>
      run (connection\<lparr>cloudSpeechApi := a', recording := True\<rparr>) (map Data [[1, 2], [3]]) =
        Inr c' \<and>
      writes (streams (cloudSpeechApi c') ! 0) =
        [StreamingConfig defaultStreamingOptions, AudioContent [1, 2], AudioContent [3]])"
proof -
  obtain c where c:
    "run connection
       [Recording \<lparr>action = ''start'', options = None\<rparr>, AuthCallback 0 AuthClient,
        Data [1, 2], Data [3]] = Inr c"
    "map writes (streams (cloudSpeechApi c)) =
       [[StreamingConfig defaultStreamingOptions, AudioContent [1, 2], AudioContent [3]]]"
    by (simp add: connection_eval)
  then have "streams (cloudSpeechApi c) ! 0 \<in> set (streams (cloudSpeechApi c))"
    by (cases "streams (cloudSpeechApi c)") simp_all
  with c(1) have shape: "writes (streams (cloudSpeechApi c) ! 0) = [] \<or>
      (\<exists>cfg bufs. writes (streams (cloudSpeechApi c) ! 0) =
         StreamingConfig cfg # map AudioContent bufs)"
    using config_written_once_first [of _ c] by blast
  obtain a' st where a': "startRecording CloudSpeechApi None SpeechService = Inr (a', st)"
    "streamingOptions a' = defaultStreamingOptions"
    by (simp add: startRecording_def mergeOptions_def CloudSpeechApi_def)
  have "\<exists>c'. run (connection\<lparr>cloudSpeechApi := a', recording := True\<rparr>)
            (map Data [[1, 2], [3]]) = Inr c' \<and>
      writes (streams (cloudSpeechApi c') ! length (streams CloudSpeechApi)) =
        StreamingConfig (streamingOptions a') # map AudioContent [[1, 2], [3]]"
    using a'(1)
      config_written_once_first [of _ _ CloudSpeechApi None SpeechService a' st
        "connection\<lparr>cloudSpeechApi := a', recording := True\<rparr>" "[[1, 2], [3]]"]
    by simp
  then obtain c' where c':
    "run (connection\<lparr>cloudSpeechApi := a', recording := True\<rparr>) (map Data [[1, 2], [3]]) =
       Inr c'"
    "writes (streams (cloudSpeechApi c') ! 0) =
       [StreamingConfig defaultStreamingOptions, AudioContent [1, 2], AudioContent [3]]"
    using a'(2) by (auto simp: CloudSpeechApi_def)
  show ?thesis
  proof (intro conjI)
    show "\<exists>c. run connection
          [Recording \<lparr>action = ''start'', options = None\<rparr>, AuthCallback 0 AuthClient,
           Data [1, 2], Data [3]] = Inr c \<and>
        map writes (streams (cloudSpeechApi c)) =
          [[StreamingConfig defaultStreamingOptions, AudioContent [1, 2], AudioContent [3]]] \<and>
        (writes (streams (cloudSpeechApi c) ! 0) = [] \<or>
         (\<exists>cfg bufs. writes (streams (cloudSpeechApi c) ! 0) =
            StreamingConfig cfg # map AudioContent bufs))"
      by (rule exI [of _ c]) (intro conjI c shape)
    show "\<exists>a' st c'.
      startRecording CloudSpeechApi None SpeechService = Inr (a', st) \<and>
      run (connection\<lparr>cloudSpeechApi := a', recording := True\<rparr>) (map Data [[1, 2], [3]]) =
        Inr c' \<and>
      writes (streams (cloudSpeechApi c') ! 0) =
        [StreamingConfig defaultStreamingOptions, AudioContent [1, 2], AudioContent [3]]"
      by (intro exI [of _ a'] exI [of _ st] exI [of _ c'] conjI a'(1) c')
  qed
qed


section \<open>Closing the session on disconnect\<close>

text \<open>
  A session that the adapter no longer refers to is never touched again: a new
  session gets a new index, and writes and \<open>end()\<close> go to the session in use.
\<close>

lemma released_stopRecording:
  assumes "i < length (streams a)" "speechClient a \<noteq> Some i" "streams a ! i = s"
  shows "i < length (streams (stopRecording a)) \<and> speechClient (stopRecording a) \<noteq> Some i \<and>
         streams (stopRecording a) ! i = s"
  using assms
  by (cases "speechClient a") (auto simp: stopRecording_def updateStream_def)

lemma released_recognise:
  assumes "i < length (streams a)" "speechClient a \<noteq> Some i" "streams a ! i = s"
    and "recognise a b = Inr a'"
  shows "i < length (streams a') \<and> speechClient a' \<noteq> Some i \<and> streams a' ! i = s"
  using assms
  by (cases "speechClient a")
    (auto simp: recognise_def speechClient_write_def updateStream_def split: if_splits)

lemma released_startRecording:
  assumes "i < length (streams a)" "speechClient a \<noteq> Some i" "streams a ! i = s"
    and "startRecording a opts sv = Inr (a', st)"
  shows "i < length (streams a') \<and> speechClient a' \<noteq> Some i \<and> streams a' ! i = s"
  using assms(1,3) startRecording_result [OF assms(4)]
  by (simp add: nth_append)

lemma released_recogniseFile:
  assumes "i < length (streams a)" "speechClient a \<noteq> Some i" "streams a ! i = s"
    and "recogniseFile a ad ps = Inr (a', r)"
  shows "i < length (streams a') \<and> speechClient a' \<noteq> Some i \<and> streams a' ! i = s"
  using assms by (auto simp: recogniseFile_def split: sum.splits)

lemma run_released:
  assumes "run c evs = Inr c'"
    and "i < length (streams (cloudSpeechApi c))" "speechClient (cloudSpeechApi c) \<noteq> Some i"
  shows "streams (cloudSpeechApi c') ! i = streams (cloudSpeechApi c) ! i"
proof -
  let ?P = "\<lambda>a :: adapter. i < length (streams a) \<and> speechClient a \<noteq> Some i \<and>
                 streams a ! i = streams (cloudSpeechApi c) ! i"
  have "?P (cloudSpeechApi c')"
  proof (rule run_adapter_preserves [OF assms(1), where P = ?P])
    show "?P (cloudSpeechApi c)" using assms(2,3) by simp
  next
    fix a assume "?P a"
    then show "?P (stopRecording a)" using released_stopRecording by blast
  next
    fix a b a' assume "?P a" "recognise a b = Inr a'"
    then show "?P a'" using released_recognise by blast
  next
    fix a opts sv a' st assume "?P a" "startRecording a opts sv = Inr (a', st)"
    then show "?P a'" using released_startRecording by blast
  next
    fix a ad ps a' r assume "?P a" "recogniseFile a ad ps = Inr (a', r)"
    then show "?P a'" using released_recogniseFile by blast
  qed
  then show ?thesis by simp
qed

lemma stopRecording_idem: "stopRecording (stopRecording a) = stopRecording a"
  by (simp add: stopRecording_def)

lemma onDisconnect_idem: "onDisconnect (onDisconnect c) = onDisconnect c"
  by (simp add: onDisconnect_def stopRecording_idem)

lemma onDisconnect_session:
  assumes "sessionInvariant (cloudSpeechApi c)" "speechClient (cloudSpeechApi c) = Some i"
  shows "i < length (streams (cloudSpeechApi c)) \<and> ends (streams (cloudSpeechApi c) ! i) = 0 \<and>
         i < length (streams (cloudSpeechApi (onDisconnect c))) \<and>
         ends (streams (cloudSpeechApi (onDisconnect c)) ! i) = 1 \<and>
         writes (streams (cloudSpeechApi (onDisconnect c)) ! i) =
           writes (streams (cloudSpeechApi c) ! i)"
  using assms
  by (simp add: sessionInvariant_def onDisconnect_def stopRecording_def updateStream_def)

lemma disconnect_closes_reachable:
  assumes "run connection evs = Inr c"
  shows "\<not> recording (onDisconnect c) \<and>
     speechClient (cloudSpeechApi (onDisconnect c)) = None \<and>
     (\<forall>i. speechClient (cloudSpeechApi c) = Some i \<longrightarrow>
        i < length (streams (cloudSpeechApi c)) \<and>
        ends (streams (cloudSpeechApi c) ! i) = 0 \<and>
        ends (streams (cloudSpeechApi (onDisconnect c)) ! i) = 1 \<and>
        (\<forall>later c'. run (onDisconnect c) later = Inr c' \<longrightarrow>
           ends (streams (cloudSpeechApi c') ! i) = 1)) \<and>
     (speechClient (cloudSpeechApi c) = None \<longrightarrow>
        streams (cloudSpeechApi (onDisconnect c)) = streams (cloudSpeechApi c))"
proof -
  have inv: "sessionInvariant (cloudSpeechApi c)"
    using assms by (rule run_sessionInvariant)
  have none: "speechClient (cloudSpeechApi (onDisconnect c)) = None"
    by (simp add: onDisconnect_def stopRecording_def)
  have "ends (streams (cloudSpeechApi c') ! i) = 1"
    if i: "speechClient (cloudSpeechApi c) = Some i"
      and later: "run (onDisconnect c) later = Inr c'" for i later c'
  proof -
    have "streams (cloudSpeechApi c') ! i = streams (cloudSpeechApi (onDisconnect c)) ! i"
      using later onDisconnect_session [OF inv i] none by (intro run_released) simp_all
    then show ?thesis
      using onDisconnect_session [OF inv i] by simp
  qed
  moreover have "streams (cloudSpeechApi (onDisconnect c)) = streams (cloudSpeechApi c)"
    if "speechClient (cloudSpeechApi c) = None"
    using that by (simp add: onDisconnect_def stopRecording_def)
  moreover have "\<not> recording (onDisconnect c)"
    by (simp add: onDisconnect_def)
  ultimately show ?thesis
    using none onDisconnect_session [OF inv] by blast
qed

text \<open>
  C7. In every state a connection can reach with \<open>recording\<close> true, whether or not
  a stop message was ever sent, the disconnect handler sets \<open>recording\<close> to false
  and clears the session handle; the session the handle referred to had not been
  ended, is ended once by the handler, and stays ended exactly once whatever happens
  afterwards. With no session held nothing is ended. A second closure attempt, by a
  second disconnect or by a stop message, finds the handle cleared and ends nothing.
\<close>

theorem disconnect_closes_session_once:
  "(run connection evs = Inr c \<and> recording c \<longrightarrow>
      \<not> recording (onDisconnect c) \<and>
      speechClient (cloudSpeechApi (onDisconnect c)) = None \<and>
      (\<forall>i. speechClient (cloudSpeechApi c) = Some i \<longrightarrow>
         i < length (streams (cloudSpeechApi c)) \<and>
         ends (streams (cloudSpeechApi c) ! i) = 0 \<and>
         ends (streams (cloudSpeechApi (onDisconnect c)) ! i) = 1 \<and>
         (\<forall>later c'. run (onDisconnect c) later = Inr c' \<longrightarrow>
            ends (streams (cloudSpeechApi c') ! i) = 1)) \<and>
      (speechClient (cloudSpeechApi c) = None \<longrightarrow>
         streams (cloudSpeechApi (onDisconnect c)) = streams (cloudSpeechApi c))) \<and>
   step (onDisconnect c) Disconnect = Inr (onDisconnect c) \<and>
   cloudSpeechApi (onRecording (onDisconnect c) \<lparr>action = ''stop'', options = opts\<rparr>) =
     cloudSpeechApi (onDisconnect c) \<and>
   stopRecording (stopRecording a) = stopRecording a"
proof -
  have "cloudSpeechApi (onRecording (onDisconnect c) \<lparr>action = ''stop'', options = opts\<rparr>) =
     cloudSpeechApi (onDisconnect c)"
    by (simp add: onRecording_def onDisconnect_def stopRecording_idem)
  then show ?thesis
    using disconnect_closes_reachable [of evs c]
    by (simp add: onDisconnect_idem stopRecording_idem)
qed

theorem disconnect_closes_session_once_witness:
  "\<exists>c. run connection
         [Recording \<lparr>action = ''start'', options = None\<rparr>, AuthCallback 0 AuthClient,
          Data [1, 2]] = Inr c \<and>
       recording c \<and>
       speechClient (cloudSpeechApi c) = Some 0 \<and>
       ends (streams (cloudSpeechApi c) ! 0) = 0 \<and>
       \<not> recording (onDisconnect c) \<and>
       speechClient (cloudSpeechApi (onDisconnect c)) = None \<and>
       ends (streams (cloudSpeechApi (onDisconnect c)) ! 0) = 1 \<and>
       (\<exists>c'. run (onDisconnect c)
                [Disconnect, Recording \<lparr>action = ''stop'', options = None\<rparr>] = Inr c' \<and>
             ends (streams (cloudSpeechApi c') ! 0) = 1)"
proof -
  obtain c where c:
    "run connection
       [Recording \<lparr>action = ''start'', options = None\<rparr>, AuthCallback 0 AuthClient,
        Data [1, 2]] = Inr c"
    "recording c" "speechClient (cloudSpeechApi c) = Some 0"
    by (simp add: connection_eval)
  obtain c' where c':
    "run (onDisconnect c) [Disconnect, Recording \<lparr>action = ''stop'', options = None\<rparr>] = Inr c'"
    by simp
  note t = disconnect_closes_session_once [of _ c]
  have 1: "ends (streams (cloudSpeechApi c) ! 0) = 0"
    "\<not> recording (onDisconnect c)"
    "speechClient (cloudSpeechApi (onDisconnect c)) = None"
    "ends (streams (cloudSpeechApi (onDisconnect c)) ! 0) = 1"
    "ends (streams (cloudSpeechApi c') ! 0) = 1"
    using c c' t by blast+
  show ?thesis
    by (intro exI [of _ c] exI [of _ c'] conjI c c' 1)
qed

section \<open>Overrides persist over the life of a connection\<close>

lemma stopRecording_options:
  "streamingOptions (stopRecording a) = streamingOptions a \<and>
   nonStreamingOptions (stopRecording a) = nonStreamingOptions a"
  by (cases "speechClient a") (simp_all add: stopRecording_def)

lemma recognise_options:
  assumes "recognise a b = Inr a'"
  shows "streamingOptions a' = streamingOptions a \<and>
         nonStreamingOptions a' = nonStreamingOptions a"
  using assms
  by (cases "speechClient a")
    (auto simp: recognise_def speechClient_write_def split: if_splits)

lemma recogniseFile_streamingOptions:
  assumes "recogniseFile a ad ps = Inr (a', r)"
  shows "streamingOptions a' = streamingOptions a"
  using assms by (auto simp: recogniseFile_def split: sum.splits)

lemma recogniseFile_omits:
  assumes "recogniseFile a ad ps = Inr (a', r)" "omitsKey k ps"
  shows "getProp (nonStreamingOptions a') k = getProp (nonStreamingOptions a) k \<and>
         initialRecognizeRequest r = nonStreamingOptions a' \<and> audioRequest r = ad"
proof (cases ps)
  case None
  with assms(1) show ?thesis by (auto simp: recogniseFile_None)
next
  case (Some os)
  with assms(2) have "k \<notin> set (Object_keys os)" by (simp add: omitsKey_def)
  with recogniseFile_Some [OF assms(1) [unfolded Some]] show ?thesis by simp
qed

lemma pendingAuth_socket_emit [simp]:
  "pendingAuth (socket_emit c name payload) = pendingAuth c"
  by (simp add: socket_emit_def)

lemma pendingAuth_statusCallback [simp]:
  "pendingAuth (statusCallback c st) = pendingAuth c"
  by (simp add: statusCallback_def Let_def)

lemma pendingAuth_fileCallback [simp]:
  "pendingAuth (fileCallback c resp) = pendingAuth c"
  by (simp add: fileCallback_def)

lemma set_removeAt: "set (removeAt i xs) \<subseteq> set xs"
proof -
  have "set (take i xs) \<subseteq> set xs" "set (drop (Suc i) xs) \<subseteq> set xs"
    by (rule set_take_subset, rule set_drop_subset)
  then show ?thesis by (simp add: removeAt_def)
qed

text \<open>Only a file submission writes the record of the one-shot recognition.\<close>

lemma step_nonStreamingOptions:
  assumes "step c e = Inr c'"
  shows "nonStreamingOptions (cloudSpeechApi c') = nonStreamingOptions (cloudSpeechApi c) \<or>
         (\<exists>ad ps r. e = RecogniseFile ad ps \<and>
            recogniseFile (cloudSpeechApi c) ad ps = Inr (cloudSpeechApi c', r))"
proof (cases e)
  case (Recording ps)
  with assms show ?thesis
    by (auto simp: onRecording_def stopRecording_options split: if_splits)
next
  case (RecogniseFile ad ps)
  with assms show ?thesis by (auto simp: onRecogniseFile_def split: sum.splits)
next
  case Disconnect
  with assms show ?thesis by (auto simp: onDisconnect_def stopRecording_options)
next
  case (Data b)
  with assms show ?thesis
    by (auto simp: onData_def recognise_options split: if_splits sum.splits)
next
  case (AuthCallback i r)
  with assms show ?thesis
    by (auto simp: onAuthCallback_def Let_def dest: startRecording_result
        split: if_splits pending.splits sum.splits)
next
  case (RpcCallback r)
  with assms show ?thesis by (auto simp: onRpcCallback_def split: if_splits sum.splits)
next
  case (StreamError i err)
  with assms show ?thesis by auto
next
  case (StreamData i resp)
  with assms show ?thesis by (auto split: option.splits)
next
  case (StreamEnd i)
  with assms show ?thesis by auto
qed

lemma run_file_override_persists:
  assumes "run c evs = Inr c'" "list_all (fileRequestOmits k) evs"
  shows "getProp (nonStreamingOptions (cloudSpeechApi c')) k =
         getProp (nonStreamingOptions (cloudSpeechApi c)) k"
  using assms
proof (induction evs arbitrary: c)
  case Nil
  then show ?case by simp
next
  case (Cons e evs)
  then obtain c1 where c1: "step c e = Inr c1" "run c1 evs = Inr c'"
    by (auto split: sum.splits)
  have "getProp (nonStreamingOptions (cloudSpeechApi c1)) k =
        getProp (nonStreamingOptions (cloudSpeechApi c)) k"
    using step_nonStreamingOptions [OF c1(1)]
  proof
    assume "nonStreamingOptions (cloudSpeechApi c1) = nonStreamingOptions (cloudSpeechApi c)"
    then show ?thesis by simp
  next
    assume "\<exists>ad ps r. e = RecogniseFile ad ps \<and>
            recogniseFile (cloudSpeechApi c) ad ps = Inr (cloudSpeechApi c1, r)"
    then obtain ad ps r where e: "e = RecogniseFile ad ps"
      and f: "recogniseFile (cloudSpeechApi c) ad ps = Inr (cloudSpeechApi c1, r)"
      by blast
    have "omitsKey k ps"
      using Cons.prems(2) e by (simp add: fileRequestOmits_def)
    with recogniseFile_omits [OF f] show ?thesis by simp
  qed
  moreover have "getProp (nonStreamingOptions (cloudSpeechApi c')) k =
        getProp (nonStreamingOptions (cloudSpeechApi c1)) k"
    using Cons.IH [OF c1(2)] Cons.prems(2) by simp
  ultimately show ?case by simp
qed

lemma step_RecogniseFile:
  assumes "step c (RecogniseFile ad ps) = Inr c'"
  shows "\<exists>r. recogniseFile (cloudSpeechApi c) ad ps = Inr (cloudSpeechApi c', r) \<and>
           pendingAuth c' = pendingAuth c @ [PendingFile r]"
  using assms by (auto simp: onRecogniseFile_def split: sum.splits)

lemma file_override_persists:
  assumes "step c (RecogniseFile audio1 (Some p1)) = Inr c1"
    and "k \<in> set (Object_keys (nonStreamingOptions (cloudSpeechApi c)))"
    and "k \<in> set (Object_keys p1)"
    and "run c1 evs = Inr c2" "list_all (fileRequestOmits k) evs"
    and "omitsKey k p2" "step c2 (RecogniseFile audio2 p2) = Inr c3"
  shows "getProp (nonStreamingOptions (cloudSpeechApi c2)) k = getProp p1 k \<and>
         (\<exists>r. pendingAuth c3 = pendingAuth c2 @ [PendingFile r] \<and> audioRequest r = audio2 \<and>
              getProp (initialRecognizeRequest r) k = getProp p1 k)"
proof -
  obtain r1 where
    "recogniseFile (cloudSpeechApi c) audio1 (Some p1) = Inr (cloudSpeechApi c1, r1)"
    using step_RecogniseFile [OF assms(1)] by blast
  from recogniseFile_Some [OF this] assms(2,3)
  have 1: "getProp (nonStreamingOptions (cloudSpeechApi c1)) k = getProp p1 k"
    by simp
  have 2: "getProp (nonStreamingOptions (cloudSpeechApi c2)) k = getProp p1 k"
    using run_file_override_persists [OF assms(4,5)] 1 by simp
  obtain r where r: "recogniseFile (cloudSpeechApi c2) audio2 p2 = Inr (cloudSpeechApi c3, r)"
    "pendingAuth c3 = pendingAuth c2 @ [PendingFile r]"
    using step_RecogniseFile [OF assms(7)] by blast
  from recogniseFile_omits [OF r(1) assms(6)] 2
  have "audioRequest r = audio2 \<and> getProp (initialRecognizeRequest r) k = getProp p1 k"
    by simp
  with 2 r(2) show ?thesis by blast
qed


text \<open>
  Only the auth callback of a start writes the streaming record, by the merge of the
  options that start was sent with. So a property of the record that every such merge
  keeps, for the starts that wait and for the starts still to come, holds from then on.
\<close>

lemma step_streaming_preserved:
  assumes "step c e = Inr c'" "Q (streamingOptions (cloudSpeechApi c))"
    and "list_all (pendingOmits G) (pendingAuth c)" "startRequestOmits G e"
    and merge: "\<And>so opts so'. Q so \<Longrightarrow> G opts \<Longrightarrow> mergeOptions so opts = Inr so' \<Longrightarrow> Q so'"
  shows "Q (streamingOptions (cloudSpeechApi c')) \<and> list_all (pendingOmits G) (pendingAuth c')"
proof (cases e)
  case (Recording ps)
  with assms(1-4) show ?thesis
    by (auto simp: onRecording_def stopRecording_options startRequestOmits_def
        pendingOmits_def split: if_splits)
next
  case (RecogniseFile ad ps)
  with assms(1-3) show ?thesis
    using step_RecogniseFile [of c ad ps c']
    by (auto simp: recogniseFile_streamingOptions pendingOmits_def)
next
  case Disconnect
  with assms(1-3) show ?thesis by (auto simp: onDisconnect_def stopRecording_options)
next
  case (Data b)
  with assms(1-3) show ?thesis
    by (auto simp: onData_def recognise_options split: if_splits sum.splits)
next
  case (AuthCallback i r)
  show ?thesis
  proof (cases "i < length (pendingAuth c)")
    case False
    with assms(1-3) AuthCallback show ?thesis by (simp add: onAuthCallback_def)
  next
    case True
    have rest: "list_all (pendingOmits G) (removeAt i (pendingAuth c))"
      using assms(3) set_removeAt [of i "pendingAuth c"] by (auto simp: list_all_iff)
    have here: "pendingOmits G (pendingAuth c ! i)"
      using assms(3) True by (simp add: list_all_length)
    show ?thesis
    proof (cases "pendingAuth c ! i")
      case (PendingFile req)
      with assms(1,2) AuthCallback True rest show ?thesis
        by (auto simp: onAuthCallback_def Let_def split: sum.splits)
    next
      case (PendingStart opts)
      let ?c1 = "c\<lparr>pendingAuth := removeAt i (pendingAuth c)\<rparr>"
      from assms(1) AuthCallback True PendingStart obtain a st where
        st: "startRecording (cloudSpeechApi c) opts (getSpeechService r) = Inr (a, st)"
        and c': "c' = statusCallback (?c1\<lparr>cloudSpeechApi := a\<rparr>) st"
        by (auto simp: onAuthCallback_def Let_def split: sum.splits)
      have "G opts"
        using here PendingStart by (simp add: pendingOmits_def)
      with merge [OF assms(2) _ startRecording_merges [OF st]]
      have "Q (streamingOptions a)" by simp
      with rest show ?thesis by (simp add: c')
    qed
  qed
next
  case (RpcCallback r)
  with assms(1-3) show ?thesis by (auto simp: onRpcCallback_def split: if_splits sum.splits)
next
  case (StreamError i err)
  with assms(1-3) show ?thesis by auto
next
  case (StreamData i resp)
  with assms(1-3) show ?thesis by (auto split: option.splits)
next
  case (StreamEnd i)
  with assms(1-3) show ?thesis by auto
qed

lemma run_streaming_preserved:
  assumes "run c evs = Inr c'" "Q (streamingOptions (cloudSpeechApi c))"
    and "list_all (pendingOmits G) (pendingAuth c)" "list_all (startRequestOmits G) evs"
    and merge: "\<And>so opts so'. Q so \<Longrightarrow> G opts \<Longrightarrow> mergeOptions so opts = Inr so' \<Longrightarrow> Q so'"
  shows "Q (streamingOptions (cloudSpeechApi c'))"
  using assms(1-4)
proof (induction evs arbitrary: c)
  case Nil
  then show ?case by simp
next
  case (Cons e evs)
  then obtain c1 where c1: "step c e = Inr c1" "run c1 evs = Inr c'"
    by (auto split: sum.splits)
  have rest: "list_all (startRequestOmits G) evs"
    using Cons.prems(4) by simp
  have "Q (streamingOptions (cloudSpeechApi c1)) \<and> list_all (pendingOmits G) (pendingAuth c1)"
  proof (rule step_streaming_preserved [of c e c1 Q G])
    show "step c e = Inr c1" by (rule c1(1))
    show "Q (streamingOptions (cloudSpeechApi c))" by (rule Cons.prems(2))
    show "list_all (pendingOmits G) (pendingAuth c)" by (rule Cons.prems(3))
    show "startRequestOmits G e" using Cons.prems(4) by simp
    show "\<And>so opts so'. Q so \<Longrightarrow> G opts \<Longrightarrow> mergeOptions so opts = Inr so' \<Longrightarrow> Q so'"
      by (rule merge)
  qed
  then have "Q (streamingOptions (cloudSpeechApi c1))"
    "list_all (pendingOmits G) (pendingAuth c1)"
    by simp_all
  from Cons.IH [OF c1(2) this rest] show ?case .
qed

lemma mergeOptions_keeps_top:
  assumes "k \<in> set (Object_keys so) \<and> getProp so k = v" "omitsKey k opts"
    "mergeOptions so opts = Inr so'"
  shows "k \<in> set (Object_keys so') \<and> getProp so' k = v"
proof -
  have o: "\<forall>os. opts = Some os \<longrightarrow> k \<notin> set (Object_keys os)"
    using assms(2) by (simp add: omitsKey_def split: option.splits)
  show ?thesis
    using mergeOptions_keys [OF assms(3)] mergeOptions_keeps [OF assms(3) _ o] assms(1)
    by simp
qed

lemma mergeOptions_keeps_inner:
  assumes "k \<in> set (Object_keys so) \<and>
           (\<exists>d. getProp so k = JObj d \<and> ik \<in> set (Object_keys d) \<and> getProp d ik = v)"
    and "omitsInnerKey k ik opts" "mergeOptions so opts = Inr so'"
  shows "k \<in> set (Object_keys so') \<and>
         (\<exists>d. getProp so' k = JObj d \<and> ik \<in> set (Object_keys d) \<and> getProp d ik = v)"
proof -
  from assms(1) obtain d where k: "k \<in> set (Object_keys so)"
    and d: "getProp so k = JObj d" "ik \<in> set (Object_keys d)" "getProp d ik = v"
    by blast
  have keys: "k \<in> set (Object_keys so')"
    using mergeOptions_keys [OF assms(3)] k by simp
  show ?thesis
  proof (cases "omitsKey k opts")
    case True
    from mergeOptions_keeps_top [OF _ True assms(3), of "JObj d"] k d
    show ?thesis by auto
  next
    case False
    then obtain os where os: "opts = Some os" "k \<in> set (Object_keys os)"
      by (auto simp: omitsKey_def split: option.splits)
    with assms(2) obtain inner where inner: "getProp os k = JObj inner"
      "ik \<notin> set (Object_keys inner)"
      by (auto simp: omitsInnerKey_def split: jsval.splits)
    have "mergedValue (JObj d) (JObj inner) (getProp so' k)"
      using allowListMerged_value
        [OF mergeOptions_allowListMerged [OF assms(3) [unfolded os(1)]] k] os(2) d(1) inner(1)
      by simp
    then obtain d' where d': "getProp so' k = JObj d'" "innerMerged d inner d'"
      by (cases "getProp so' k") (simp_all add: mergedValue_def)
    have "ik \<in> set (Object_keys d')"
      using d'(2) d(2) by (simp add: innerMerged_def)
    moreover have "getProp d' ik = v"
      using innerMerged_value [OF d'(2) d(2)] inner(2) d(3) by simp
    ultimately show ?thesis using keys d'(1) by blast
  qed
qed

lemma step_AuthCallback_start:
  assumes "step c (AuthCallback i r) = Inr c'" "i < length (pendingAuth c)"
    "pendingAuth c ! i = PendingStart opts"
  shows "\<exists>st. startRecording (cloudSpeechApi c) opts (getSpeechService r) =
           Inr (cloudSpeechApi c', st)"
  using assms by (auto simp: onAuthCallback_def Let_def split: sum.splits)

lemma config_of_session_in_use:
  assumes "run connection before = Inr c" "step c e = Inr c1" "run c1 evs = Inr c2"
    and "speechClient (cloudSpeechApi c2) = Some j"
    "writes (streams (cloudSpeechApi c2) ! j) = m # ws"
  shows "m = StreamingConfig (streamingOptions (cloudSpeechApi c2))"
proof -
  have "run c (e # evs) = Inr c2"
    using assms(2,3) by simp
  then have "sessionInvariant (cloudSpeechApi c2)"
  proof (rule run_adapter_preserves)
    show "sessionInvariant (cloudSpeechApi c)"
      using assms(1) by (rule run_sessionInvariant)
  qed (fact sessionInvariant_stopRecording sessionInvariant_recognise
        sessionInvariant_startRecording sessionInvariant_recogniseFile)+
  then show ?thesis
    using assms(4,5) by (simp add: sessionInvariant_def)
qed

lemma start_override_persists:
  assumes "run connection before = Inr c" "i < length (pendingAuth c)"
    and "pendingAuth c ! i = PendingStart (Some o1)" "step c (AuthCallback i r) = Inr c1"
    and "k \<in> set (Object_keys (streamingOptions (cloudSpeechApi c)))"
    and "k \<in> set (Object_keys o1)" "typeof (getProp o1 k) \<noteq> ''object''"
    and "list_all (pendingOmits (omitsKey k)) (pendingAuth c1)"
    and "run c1 evs = Inr c2" "list_all (startRequestOmits (omitsKey k)) evs"
  shows "getProp (streamingOptions (cloudSpeechApi c2)) k = getProp o1 k \<and>
     (\<forall>j m ws. speechClient (cloudSpeechApi c2) = Some j \<and>
        writes (streams (cloudSpeechApi c2) ! j) = m # ws \<longrightarrow>
        (\<exists>cfg. m = StreamingConfig cfg \<and> getProp cfg k = getProp o1 k))"
proof -
  obtain st where st:
    "startRecording (cloudSpeechApi c) (Some o1) (getSpeechService r) =
       Inr (cloudSpeechApi c1, st)"
    using step_AuthCallback_start [OF assms(4,2,3)] by blast
  have m1: "mergeOptions (streamingOptions (cloudSpeechApi c)) (Some o1) =
      Inr (streamingOptions (cloudSpeechApi c1))"
    using st by (rule startRecording_merges)
  have "mergedValue (getProp (streamingOptions (cloudSpeechApi c)) k) (getProp o1 k)
          (getProp (streamingOptions (cloudSpeechApi c1)) k)"
    using allowListMerged_value [OF mergeOptions_allowListMerged [OF m1] assms(5)] assms(6)
    by simp
  then have v1: "getProp (streamingOptions (cloudSpeechApi c1)) k = getProp o1 k"
    using assms(7) by (cases "getProp o1 k") (simp_all add: mergedValue_def typeof_def)
  have k1: "k \<in> set (Object_keys (streamingOptions (cloudSpeechApi c1)))"
    using mergeOptions_keys [OF m1] assms(5) by simp
  have v2: "k \<in> set (Object_keys (streamingOptions (cloudSpeechApi c2))) \<and>
      getProp (streamingOptions (cloudSpeechApi c2)) k = getProp o1 k"
  proof (rule run_streaming_preserved
      [where Q = "\<lambda>so. k \<in> set (Object_keys so) \<and> getProp so k = getProp o1 k"
         and G = "omitsKey k", OF assms(9) _ assms(8,10)])
    show "k \<in> set (Object_keys (streamingOptions (cloudSpeechApi c1))) \<and>
      getProp (streamingOptions (cloudSpeechApi c1)) k = getProp o1 k"
      using k1 v1 by simp
  next
    fix so opts so'
    assume "k \<in> set (Object_keys so) \<and> getProp so k = getProp o1 k" "omitsKey k opts"
      "mergeOptions so opts = Inr so'"
    then show "k \<in> set (Object_keys so') \<and> getProp so' k = getProp o1 k"
      by (rule mergeOptions_keeps_top)
  qed
  show ?thesis
    using v2 config_of_session_in_use [OF assms(1,4,9)] by blast
qed

lemma nested_override_persists:
  assumes "run connection before = Inr c" "i < length (pendingAuth c)"
    and "pendingAuth c ! i = PendingStart (Some o1)" "step c (AuthCallback i r) = Inr c1"
    and "k \<in> set (Object_keys (streamingOptions (cloudSpeechApi c)))"
    and "getProp (streamingOptions (cloudSpeechApi c)) k = JObj d" "ik \<in> set (Object_keys d)"
    and "k \<in> set (Object_keys o1)" "getProp o1 k = JObj i1" "ik \<in> set (Object_keys i1)"
    and "list_all (pendingOmits (omitsInnerKey k ik)) (pendingAuth c1)"
    and "run c1 evs = Inr c2" "list_all (startRequestOmits (omitsInnerKey k ik)) evs"
  shows "(\<exists>d2. getProp (streamingOptions (cloudSpeechApi c2)) k = JObj d2 \<and>
           getProp d2 ik = getProp i1 ik) \<and>
     (\<forall>j m ws. speechClient (cloudSpeechApi c2) = Some j \<and>
        writes (streams (cloudSpeechApi c2) ! j) = m # ws \<longrightarrow>
        (\<exists>cfg d2. m = StreamingConfig cfg \<and> getProp cfg k = JObj d2 \<and>
           getProp d2 ik = getProp i1 ik))"
proof -
  obtain st where st:
    "startRecording (cloudSpeechApi c) (Some o1) (getSpeechService r) =
       Inr (cloudSpeechApi c1, st)"
    using step_AuthCallback_start [OF assms(4,2,3)] by blast
  have m1: "mergeOptions (streamingOptions (cloudSpeechApi c)) (Some o1) =
      Inr (streamingOptions (cloudSpeechApi c1))"
    using st by (rule startRecording_merges)
  have "mergedValue (JObj d) (JObj i1) (getProp (streamingOptions (cloudSpeechApi c1)) k)"
    using allowListMerged_value [OF mergeOptions_allowListMerged [OF m1] assms(5)]
      assms(6,8,9)
    by simp
  then obtain d1 where d1: "getProp (streamingOptions (cloudSpeechApi c1)) k = JObj d1"
    "innerMerged d i1 d1"
    by (cases "getProp (streamingOptions (cloudSpeechApi c1)) k") (simp_all add: mergedValue_def)
  have v1: "getProp d1 ik = getProp i1 ik" "ik \<in> set (Object_keys d1)"
    using innerMerged_value [OF d1(2) assms(7)] assms(10,7) d1(2)
    by (simp_all add: innerMerged_def)
  have k1: "k \<in> set (Object_keys (streamingOptions (cloudSpeechApi c1)))"
    using mergeOptions_keys [OF m1] assms(5) by simp
  have v2: "k \<in> set (Object_keys (streamingOptions (cloudSpeechApi c2))) \<and>
      (\<exists>d2. getProp (streamingOptions (cloudSpeechApi c2)) k = JObj d2 \<and>
         ik \<in> set (Object_keys d2) \<and> getProp d2 ik = getProp i1 ik)"
  proof (rule run_streaming_preserved
      [where Q = "\<lambda>so. k \<in> set (Object_keys so) \<and>
           (\<exists>d2. getProp so k = JObj d2 \<and> ik \<in> set (Object_keys d2) \<and>
              getProp d2 ik = getProp i1 ik)"
         and G = "omitsInnerKey k ik", OF assms(12) _ assms(11,13)])
    show "k \<in> set (Object_keys (streamingOptions (cloudSpeechApi c1))) \<and>
      (\<exists>d2. getProp (streamingOptions (cloudSpeechApi c1)) k = JObj d2 \<and>
         ik \<in> set (Object_keys d2) \<and> getProp d2 ik = getProp i1 ik)"
      using k1 d1(1) v1 by simp
  next
    fix so opts so'
    assume "k \<in> set (Object_keys so) \<and>
           (\<exists>d2. getProp so k = JObj d2 \<and> ik \<in> set (Object_keys d2) \<and>
              getProp d2 ik = getProp i1 ik)"
      "omitsInnerKey k ik opts" "mergeOptions so opts = Inr so'"
    then show "k \<in> set (Object_keys so') \<and>
           (\<exists>d2. getProp so' k = JObj d2 \<and> ik \<in> set (Object_keys d2) \<and>
              getProp d2 ik = getProp i1 ik)"
      by (rule mergeOptions_keeps_inner)
  qed
  show ?thesis
    using v2 config_of_session_in_use [OF assms(1,4,12)] by blast
qed


text \<open>
  C9. The merges write into the records of the adapter that belongs to the
  connection, and nothing else on the connection writes them: not stop, not
  disconnect, not audio, not the callbacks of the cloud service. So an override
  stays until a later request overrides it again, whatever happens in between.
  A recognized parameter set by a file submission is the value of that parameter in
  the record, and in the request the next submission builds, after any run of events
  whose submissions omit it. A recognized top-level option that is not an object, or
  a recognized option inside a sub-record, applied by the auth callback of a start
  is the value in the streaming record after any run of events in which no start,
  waiting or new, supplies it; and the configuration message of whatever session is
  then in use, opened by that start or by a later one, carries that value.
\<close>

theorem overrides_persist:
  "(step c (RecogniseFile audio1 (Some p1)) = Inr c1 \<and>
    k \<in> set (Object_keys (nonStreamingOptions (cloudSpeechApi c))) \<and>
    k \<in> set (Object_keys p1) \<and>
    run c1 evs = Inr c2 \<and> list_all (fileRequestOmits k) evs \<and>
    omitsKey k p2 \<and> step c2 (RecogniseFile audio2 p2) = Inr c3 \<longrightarrow>
      getProp (nonStreamingOptions (cloudSpeechApi c2)) k = getProp p1 k \<and>
      (\<exists>r. pendingAuth c3 = pendingAuth c2 @ [PendingFile r] \<and> audioRequest r = audio2 \<and>
           getProp (initialRecognizeRequest r) k = getProp p1 k)) \<and>
   (run connection before = Inr d \<and> i < length (pendingAuth d) \<and>
    pendingAuth d ! i = PendingStart (Some o1) \<and> step d (AuthCallback i r) = Inr d1 \<and>
    k \<in> set (Object_keys (streamingOptions (cloudSpeechApi d))) \<and>
    k \<in> set (Object_keys o1) \<and> typeof (getProp o1 k) \<noteq> ''object'' \<and>
    list_all (pendingOmits (omitsKey k)) (pendingAuth d1) \<and>
    run d1 evs = Inr d2 \<and> list_all (startRequestOmits (omitsKey k)) evs \<longrightarrow>
      getProp (streamingOptions (cloudSpeechApi d2)) k = getProp o1 k \<and>
      (\<forall>j m ws. speechClient (cloudSpeechApi d2) = Some j \<and>
         writes (streams (cloudSpeechApi d2) ! j) = m # ws \<longrightarrow>
         (\<exists>cfg. m = StreamingConfig cfg \<and> getProp cfg k = getProp o1 k))) \<and>
   (run connection before = Inr d \<and> i < length (pendingAuth d) \<and>
    pendingAuth d ! i = PendingStart (Some o1) \<and> step d (AuthCallback i r) = Inr d1 \<and>
    k \<in> set (Object_keys (streamingOptions (cloudSpeechApi d))) \<and>
    getProp (streamingOptions (cloudSpeechApi d)) k = JObj sub \<and>
    ik \<in> set (Object_keys sub) \<and>
    k \<in> set (Object_keys o1) \<and> getProp o1 k = JObj i1 \<and> ik \<in> set (Object_keys i1) \<and>
    list_all (pendingOmits (omitsInnerKey k ik)) (pendingAuth d1) \<and>
    run d1 evs = Inr d2 \<and> list_all (startRequestOmits (omitsInnerKey k ik)) evs \<longrightarrow>
      (\<exists>sub2. getProp (streamingOptions (cloudSpeechApi d2)) k = JObj sub2 \<and>
         getProp sub2 ik = getProp i1 ik) \<and>
      (\<forall>j m ws. speechClient (cloudSpeechApi d2) = Some j \<and>
         writes (streams (cloudSpeechApi d2) ! j) = m # ws \<longrightarrow>
         (\<exists>cfg sub2. m = StreamingConfig cfg \<and> getProp cfg k = JObj sub2 \<and>
            getProp sub2 ik = getProp i1 ik)))"
  using file_override_persists [of c audio1 p1 c1 k evs c2 p2 audio2 c3]
    start_override_persists [of before d i o1 r d1 k evs d2]
    nested_override_persists [of before d i o1 r d1 k sub ik i1 evs d2]
  by blast

lemma run_append:
  "run c (xs @ ys) = (case run c xs of Inl err \<Rightarrow> Inl err | Inr c' \<Rightarrow> run c' ys)"
  by (induction xs arbitrary: c) (auto split: sum.splits)

lemma run_split:
  assumes "run c xs = Inr c1" "run c (xs @ ys) = Inr c2"
  shows "run c1 ys = Inr c2"
  using assms by (simp add: run_append)

lemma run_single: "run c [e] = Inr c' \<Longrightarrow> step c e = Inr c'"
  by (auto split: sum.splits)

lemmas relay_eval =
  connection_eval merge_eval onRecogniseFile_def recogniseFile_def
  defaultStreamingOptions_def defaultNonStreamingOptions_def

theorem overrides_persist_witness:
  "(\<exists>c1 c2 c3 r.
      step connection (RecogniseFile ''UklGRg=='' (Some [(''sampleRate'', JNum 8000)])) = Inr c1 \<and>
      run c1 [Recording \<lparr>action = ''start'', options = None\<rparr>, AuthCallback 1 AuthClient,
              Data [1, 2], Recording \<lparr>action = ''stop'', options = None\<rparr>] = Inr c2 \<and>
      step c2 (RecogniseFile ''ZkxhQw=='' None) = Inr c3 \<and>
      pendingAuth c3 = pendingAuth c2 @ [PendingFile r] \<and> audioRequest r = ''ZkxhQw=='' \<and>
      getProp (initialRecognizeRequest r) ''sampleRate'' = JNum 8000) \<and>
   getProp defaultNonStreamingOptions ''sampleRate'' = JNum 16000 \<and>
   (\<exists>d d1 d2 cfg ws.
      run connection
        [Recording \<lparr>action = ''start'', options = Some [(''interimResults'', JBool False)]\<rparr>] =
        Inr d \<and>
      step d (AuthCallback 0 AuthClient) = Inr d1 \<and>
      run d1 [Data [1], Recording \<lparr>action = ''stop'', options = None\<rparr>,
              Recording \<lparr>action = ''start'', options = None\<rparr>, AuthCallback 0 AuthClient,
              Data [2]] = Inr d2 \<and>
      map ends (streams (cloudSpeechApi d2)) = [1, 0] \<and>
      speechClient (cloudSpeechApi d2) = Some 1 \<and>
      writes (streams (cloudSpeechApi d2) ! 1) = StreamingConfig cfg # ws \<and>
      getProp cfg ''interimResults'' = JBool False) \<and>
   getProp defaultStreamingOptions ''interimResults'' = JBool True \<and>
   (\<exists>d d1 d2 cfg sub2 ws.
      run connection
        [Recording \<lparr>action = ''start'',
           options = Some [(''config'', JObj [(''languageCode'', JStr ''fr-FR'')])]\<rparr>] =
        Inr d \<and>
      step d (AuthCallback 0 AuthClient) = Inr d1 \<and>
      run d1 [Data [1], Recording \<lparr>action = ''stop'', options = None\<rparr>,
              Recording \<lparr>action = ''start'',
                options = Some [(''config'', JObj [(''sampleRate'', JNum 48000)])]\<rparr>,
              AuthCallback 0 AuthClient, Data [2]] = Inr d2 \<and>
      speechClient (cloudSpeechApi d2) = Some 1 \<and>
      writes (streams (cloudSpeechApi d2) ! 1) = StreamingConfig cfg # ws \<and>
      getProp cfg ''config'' = JObj sub2 \<and>
      getProp sub2 ''languageCode'' = JStr ''fr-FR'')"
proof -
  let ?p1 = "[(''sampleRate'', JNum 8000)]"
  let ?f0 = "[RecogniseFile ''UklGRg=='' (Some ?p1)]"
  let ?fevs = "[Recording \<lparr>action = ''start'', options = None\<rparr>, AuthCallback 1 AuthClient,
              Data [1, 2], Recording \<lparr>action = ''stop'', options = None\<rparr>]"
  obtain c1 where c1: "run connection ?f0 = Inr c1"
    by (simp add: relay_eval)
  obtain c2 where c2: "run connection (?f0 @ ?fevs) = Inr c2"
    by (simp add: relay_eval)
  obtain c3 where c3: "step c2 (RecogniseFile ''ZkxhQw=='' None) = Inr c3"
    by (simp add: onRecogniseFile_def recogniseFile_None)
  have f: "step connection (RecogniseFile ''UklGRg=='' (Some ?p1)) = Inr c1"
    "run c1 ?fevs = Inr c2"
    using c1 by (rule run_single) (rule run_split [OF c1 c2])
  have fh: "''sampleRate'' \<in> set (Object_keys (nonStreamingOptions (cloudSpeechApi connection)))"
    "''sampleRate'' \<in> set (Object_keys ?p1)"
    "list_all (fileRequestOmits ''sampleRate'') ?fevs"
    "omitsKey ''sampleRate'' None"
    by (simp_all add: relay_eval fileRequestOmits_def omitsKey_def)
  have fv: "getProp ?p1 ''sampleRate'' = JNum 8000"
    "getProp defaultNonStreamingOptions ''sampleRate'' = JNum 16000"
    by (simp_all add: getProp_def defaultNonStreamingOptions_def)
  have "\<exists>r. pendingAuth c3 = pendingAuth c2 @ [PendingFile r] \<and> audioRequest r = ''ZkxhQw=='' \<and>
      getProp (initialRecognizeRequest r) ''sampleRate'' = getProp ?p1 ''sampleRate''"
    using f c3 fh
      overrides_persist [of connection "''UklGRg==''" ?p1 c1 "''sampleRate''" ?fevs c2 None
        "''ZkxhQw==''" c3]
    by blast
  then obtain r where fr: "pendingAuth c3 = pendingAuth c2 @ [PendingFile r]"
    "audioRequest r = ''ZkxhQw==''"
    "getProp (initialRecognizeRequest r) ''sampleRate'' = JNum 8000"
    unfolding fv(1) by blast
  have part1: "\<exists>c1 c2 c3 r.
      step connection (RecogniseFile ''UklGRg=='' (Some ?p1)) = Inr c1 \<and>
      run c1 ?fevs = Inr c2 \<and>
      step c2 (RecogniseFile ''ZkxhQw=='' None) = Inr c3 \<and>
      pendingAuth c3 = pendingAuth c2 @ [PendingFile r] \<and> audioRequest r = ''ZkxhQw=='' \<and>
      getProp (initialRecognizeRequest r) ''sampleRate'' = JNum 8000"
    by (intro exI [of _ c1] exI [of _ c2] exI [of _ c3] exI [of _ r] conjI f c3 fr)

  let ?o1 = "[(''interimResults'', JBool False)]"
  let ?before = "[Recording \<lparr>action = ''start'', options = Some ?o1\<rparr>]"
  let ?ack = "[AuthCallback 0 AuthClient]"
  let ?sevs = "[Data [1], Recording \<lparr>action = ''stop'', options = None\<rparr>,
              Recording \<lparr>action = ''start'', options = None\<rparr>, AuthCallback 0 AuthClient,
              Data [2]]"
  obtain d where d: "run connection ?before = Inr d"
    "pendingAuth d = [PendingStart (Some ?o1)]"
    "streamingOptions (cloudSpeechApi d) = defaultStreamingOptions"
    by (simp add: relay_eval)
  obtain d1 where d1: "run connection (?before @ ?ack) = Inr d1" "pendingAuth d1 = []"
    by (simp add: relay_eval)
  obtain d2 where d2: "run connection ((?before @ ?ack) @ ?sevs) = Inr d2"
    "map ends (streams (cloudSpeechApi d2)) = [1, 0]"
    "speechClient (cloudSpeechApi d2) = Some 1"
    "writes (streams (cloudSpeechApi d2) ! 1) \<noteq> []"
    by (simp add: relay_eval)
  have s: "step d (AuthCallback 0 AuthClient) = Inr d1" "run d1 ?sevs = Inr d2"
    using run_split [OF d(1) d1(1)] by (rule run_single) (rule run_split [OF d1(1) d2(1)])
  have sh: "0 < length (pendingAuth d)" "pendingAuth d ! 0 = PendingStart (Some ?o1)"
    "''interimResults'' \<in> set (Object_keys (streamingOptions (cloudSpeechApi d)))"
    "''interimResults'' \<in> set (Object_keys ?o1)"
    "typeof (getProp ?o1 ''interimResults'') \<noteq> ''object''"
    "list_all (pendingOmits (omitsKey ''interimResults'')) (pendingAuth d1)"
    "list_all (startRequestOmits (omitsKey ''interimResults'')) ?sevs"
    by (simp_all add: d(2,3) d1(2) merge_eval defaultStreamingOptions_def
        startRequestOmits_def omitsKey_def)
  have sv: "getProp ?o1 ''interimResults'' = JBool False"
    "getProp defaultStreamingOptions ''interimResults'' = JBool True"
    by (simp_all add: getProp_def defaultStreamingOptions_def)
  obtain m ws where mws: "writes (streams (cloudSpeechApi d2) ! 1) = m # ws"
    using d2(4) by (cases "writes (streams (cloudSpeechApi d2) ! 1)") simp_all
  have "\<forall>j m ws. speechClient (cloudSpeechApi d2) = Some j \<and>
         writes (streams (cloudSpeechApi d2) ! j) = m # ws \<longrightarrow>
         (\<exists>cfg. m = StreamingConfig cfg \<and>
            getProp cfg ''interimResults'' = getProp ?o1 ''interimResults'')"
    using d(1) s sh
      overrides_persist [of _ _ _ _ "''interimResults''" ?sevs _ _ _ _
        ?before d 0 ?o1 AuthClient d1 d2]
    by blast
  then obtain cfg where cfg: "m = StreamingConfig cfg"
    "getProp cfg ''interimResults'' = JBool False"
    using d2(3) mws unfolding sv(1) by blast
  have w: "writes (streams (cloudSpeechApi d2) ! 1) = StreamingConfig cfg # ws"
    using mws cfg(1) by simp
  have part2: "\<exists>d d1 d2 cfg ws.
      run connection ?before = Inr d \<and>
      step d (AuthCallback 0 AuthClient) = Inr d1 \<and>
      run d1 ?sevs = Inr d2 \<and>
      map ends (streams (cloudSpeechApi d2)) = [1, 0] \<and>
      speechClient (cloudSpeechApi d2) = Some 1 \<and>
      writes (streams (cloudSpeechApi d2) ! 1) = StreamingConfig cfg # ws \<and>
      getProp cfg ''interimResults'' = JBool False"
    by (intro exI [of _ d] exI [of _ d1] exI [of _ d2] exI [of _ cfg] exI [of _ ws] conjI
        d(1) s d2(2,3) w cfg(2))

  let ?n1 = "[(''config'', JObj [(''languageCode'', JStr ''fr-FR'')])]"
  let ?nbefore = "[Recording \<lparr>action = ''start'', options = Some ?n1\<rparr>]"
  let ?nevs = "[Data [1], Recording \<lparr>action = ''stop'', options = None\<rparr>,
              Recording \<lparr>action = ''start'',
                options = Some [(''config'', JObj [(''sampleRate'', JNum 48000)])]\<rparr>,
              AuthCallback 0 AuthClient, Data [2]]"
  let ?sub = "[(''encoding'', JStr ''LINEAR16''),
          (''sampleRate'', JNum 41000),
          (''languageCode'', JStr ''en-US''),
          (''profanityFilter'', JBool True),
          (''speechContext'', JNull)]"
  let ?i1 = "[(''languageCode'', JStr ''fr-FR'')]"
  obtain e where e: "run connection ?nbefore = Inr e"
    "pendingAuth e = [PendingStart (Some ?n1)]"
    "streamingOptions (cloudSpeechApi e) = defaultStreamingOptions"
    by (simp add: relay_eval)
  obtain e1 where e1: "run connection (?nbefore @ ?ack) = Inr e1" "pendingAuth e1 = []"
    by (simp add: relay_eval)
  obtain e2 where e2: "run connection ((?nbefore @ ?ack) @ ?nevs) = Inr e2"
    "speechClient (cloudSpeechApi e2) = Some 1"
    "writes (streams (cloudSpeechApi e2) ! 1) \<noteq> []"
    by (simp add: relay_eval)
  have n: "step e (AuthCallback 0 AuthClient) = Inr e1" "run e1 ?nevs = Inr e2"
    using run_split [OF e(1) e1(1)] by (rule run_single) (rule run_split [OF e1(1) e2(1)])
  have nh: "0 < length (pendingAuth e)" "pendingAuth e ! 0 = PendingStart (Some ?n1)"
    "''config'' \<in> set (Object_keys (streamingOptions (cloudSpeechApi e)))"
    "getProp (streamingOptions (cloudSpeechApi e)) ''config'' = JObj ?sub"
    "''languageCode'' \<in> set (Object_keys ?sub)"
    "''config'' \<in> set (Object_keys ?n1)"
    "getProp ?n1 ''config'' = JObj ?i1"
    "''languageCode'' \<in> set (Object_keys ?i1)"
    "list_all (pendingOmits (omitsInnerKey ''config'' ''languageCode'')) (pendingAuth e1)"
    "list_all (startRequestOmits (omitsInnerKey ''config'' ''languageCode'')) ?nevs"
    by (simp_all add: e(2,3) e1(2) merge_eval defaultStreamingOptions_def
        startRequestOmits_def omitsInnerKey_def)
  have nv: "getProp ?i1 ''languageCode'' = JStr ''fr-FR''"
    by (simp add: getProp_def)
  obtain m' ws' where mws': "writes (streams (cloudSpeechApi e2) ! 1) = m' # ws'"
    using e2(3) by (cases "writes (streams (cloudSpeechApi e2) ! 1)") simp_all
  have "\<forall>j m ws. speechClient (cloudSpeechApi e2) = Some j \<and>
         writes (streams (cloudSpeechApi e2) ! j) = m # ws \<longrightarrow>
         (\<exists>cfg sub2. m = StreamingConfig cfg \<and> getProp cfg ''config'' = JObj sub2 \<and>
            getProp sub2 ''languageCode'' = getProp ?i1 ''languageCode'')"
    using e(1) n nh
      overrides_persist [of _ _ _ _ "''config''" ?nevs _ _ _ _
        ?nbefore e 0 ?n1 AuthClient e1 e2 ?sub "''languageCode''" ?i1]
    by blast
  then obtain cfg' sub2 where cfg': "m' = StreamingConfig cfg'"
    "getProp cfg' ''config'' = JObj sub2"
    "getProp sub2 ''languageCode'' = JStr ''fr-FR''"
    using e2(2) mws' unfolding nv by blast
  have w': "writes (streams (cloudSpeechApi e2) ! 1) = StreamingConfig cfg' # ws'"
    using mws' cfg'(1) by simp
  have part3: "\<exists>d d1 d2 cfg sub2 ws.
      run connection ?nbefore = Inr d \<and>
      step d (AuthCallback 0 AuthClient) = Inr d1 \<and>
      run d1 ?nevs = Inr d2 \<and>
      speechClient (cloudSpeechApi d2) = Some 1 \<and>
      writes (streams (cloudSpeechApi d2) ! 1) = StreamingConfig cfg # ws \<and>
      getProp cfg ''config'' = JObj sub2 \<and>
      getProp sub2 ''languageCode'' = JStr ''fr-FR''"
    by (intro exI [of _ e] exI [of _ e1] exI [of _ e2] exI [of _ cfg'] exI [of _ sub2]
        exI [of _ ws'] conjI e(1) n e2(2) w' cfg'(2,3))
  show ?thesis
    by (intro conjI part1 fv(2) part2 sv(2) part3)
qed

end
